theory Spec2Isabelle
  imports Main "HOL-Library.Sublist"
begin

section \<open>Python strings\<close>

text \<open>
  A Python \<open>str\<close> is modelled as a \<open>string\<close>, a list of characters. A \<open>char\<close> stands for
  the code point of the same number, so the model covers the code points 0 to 255. On that
  range the definitions below compute what the methods of \<open>str\<close> compute; the case
  mapping and the white space of code points beyond 255 are not modelled.
\<close>

definition isspace :: "char \<Rightarrow> bool" where
  \<comment> \<open>\<open>str.isspace\<close> on one character: the white space that \<open>split()\<close> and \<open>strip()\<close> use.\<close>
  "isspace c =
     (c \<in> {CHR 0x09, CHR 0x0A, CHR 0x0B, CHR 0x0C, CHR 0x0D, CHR 0x1C, CHR 0x1D, CHR 0x1E,
       CHR 0x1F, CHR 0x20, CHR 0x85, CHR 0xA0})"

definition strip :: "string \<Rightarrow> string" where
  \<comment> \<open>\<open>s.strip()\<close>\<close>
  "strip s = rev (dropWhile isspace (rev (dropWhile isspace s)))"

definition lower_char :: "char \<Rightarrow> char" where
  "lower_char c =
     (let n = (of_char c :: nat)
      in if (65 \<le> n \<and> n \<le> 90) \<or> (192 \<le> n \<and> n \<le> 222 \<and> n \<noteq> 215)
         then char_of (n + 32) else c)"

definition lower :: "string \<Rightarrow> string" where
  \<comment> \<open>\<open>s.lower()\<close>\<close>
  "lower s = map lower_char s"

fun contains :: "string \<Rightarrow> string \<Rightarrow> bool" where
  \<comment> \<open>\<open>contains sub s\<close> is Python's \<open>sub in s\<close> on two strings.\<close>
  "contains sub [] = (sub = [])"
| "contains sub (c # s) = (prefix sub (c # s) \<or> contains sub s)"

fun split_from :: "string \<Rightarrow> string \<Rightarrow> string list" where
  \<comment> \<open>\<open>cur\<close> is the token being read, reversed.\<close>
  "split_from cur [] = (if cur = [] then [] else [rev cur])"
| "split_from cur (c # s) =
     (if isspace c
      then (if cur = [] then split_from [] s else rev cur # split_from [] s)
      else split_from (c # cur) s)"

definition split :: "string \<Rightarrow> string list" where
  \<comment> \<open>\<open>s.split()\<close>: the maximal runs of characters that are not white space.\<close>
  "split s = split_from [] s"

definition is_linebreak :: "char \<Rightarrow> bool" where
  \<comment> \<open>The line boundaries of \<open>str.splitlines\<close>, the pair CR LF apart.\<close>
  "is_linebreak c =
     (c \<in> {CHR 0x0A, CHR 0x0B, CHR 0x0C, CHR 0x0D, CHR 0x1C, CHR 0x1D, CHR 0x1E, CHR 0x85})"

fun splitlines_from :: "string \<Rightarrow> string \<Rightarrow> string list" where
  "splitlines_from cur [] = (if cur = [] then [] else [rev cur])"
| "splitlines_from cur [c] =
     (if is_linebreak c then [rev cur] else [rev (c # cur)])"
| "splitlines_from cur (c # d # s) =
     (if c = CHR 0x0D \<and> d = CHR 0x0A then rev cur # splitlines_from [] s
      else if is_linebreak c then rev cur # splitlines_from [] (d # s)
      else splitlines_from (c # cur) (d # s))"

definition splitlines :: "string \<Rightarrow> string list" where
  \<comment> \<open>\<open>s.splitlines()\<close>: the lines without their line breaks; a final line break opens no
      further line.\<close>
  "splitlines s = splitlines_from [] s"

fun first_block_from :: "string \<Rightarrow> string \<Rightarrow> string" where
  \<comment> \<open>\<open>cur\<close> is the text read so far, reversed.\<close>
  "first_block_from cur (c # d # s) =
     (if c = CHR 0x0A \<and> d = CHR 0x0A then rev cur else first_block_from (c # cur) (d # s))"
| "first_block_from cur [c] = rev (c # cur)"
| "first_block_from cur [] = rev cur"

definition split_blank_first :: "string \<Rightarrow> string" where
  \<comment> \<open>\<open>s.split("\n\n")[0]\<close>: the text before the first two line feeds in a row, the whole
      text when there are none.\<close>
  "split_blank_first s = first_block_from [] s"

fun join :: "string \<Rightarrow> string list \<Rightarrow> string" where
  \<comment> \<open>\<open>sep.join(xs)\<close>\<close>
  "join sep [] = []"
| "join sep [x] = x"
| "join sep (x # y # ys) = x @ sep @ join sep (y # ys)"

definition dict_fromkeys :: "'a list \<Rightarrow> 'a list" where
  \<comment> \<open>\<open>list(dict.fromkeys(xs))\<close>: a dict keeps its keys in the order of their first
      insertion.\<close>
  "dict_fromkeys xs = fold (\<lambda>k ks. if k \<in> set ks then ks else ks @ [k]) xs []"

section \<open>The syntax tree of a README\<close>

text \<open>
  \<open>parse_md\<close> hands the extractors the root of a \<open>SyntaxTreeNode\<close> tree of markdown-it. The
  root is the one node without a parent and its type is \<open>root\<close>, so it passes none of the
  tests on \<open>node.type\<close> below; the model keeps its children only. The identity of a node is
  its position: \<open>siblings.index(node)\<close> is the place at which the loop met the node, and the
  siblings after it are the rest of the list the loop runs over.

  A node has the attributes the extractors read. In the tree of markdown-it, \<open>level\<close> is the
  nesting depth of the token of the node, 0 for every child of the root; it is not the level
  of a heading, which the tree keeps in \<open>tag\<close>. The \<open>content\<close> of a node that stands for an
  opening and a closing token, such as a heading or a paragraph, is the empty content of the
  opening token, and its text is the content of the \<open>inline\<close> child; the content of a fence
  is its code. The datatype has every tree with these attributes, \<open>parse_md_tree\<close> holds of
  the trees that \<open>parse_md\<close> can return.
\<close>

datatype node = Node (ntype: string) (level: int) (content: string) (children: "node list")

datatype syntax_tree = Root (root_children: "node list")

fun walk :: "node \<Rightarrow> node list" where
  \<comment> \<open>\<open>node.walk()\<close>: the node, then the walk of each child, in order.\<close>
  "walk (Node t l c cs) = Node t l c cs # concat (map walk cs)"

definition walk_tree :: "syntax_tree \<Rightarrow> node list" where
  \<comment> \<open>\<open>ast.walk()\<close> without the root it starts with.\<close>
  "walk_tree ast = concat (map walk (root_children ast))"

definition parse_md_tree :: "syntax_tree \<Rightarrow> bool" where
  \<comment> \<open>What holds of every tree of \<open>parse_md\<close>: the children of the root are at depth 0,
      and a heading or a paragraph has no content of its own.\<close>
  "parse_md_tree ast =
     (list_all (\<lambda>n. level n = 0) (root_children ast) \<and>
      list_all (\<lambda>n. if ntype n = ''heading'' \<or> ntype n = ''paragraph'' then content n = []
                     else True)
        (walk_tree ast))"

definition tiny_tool_readme :: syntax_tree where
  \<comment> \<open>The tree of \<open>parse_md("# Foo\n\nA tiny tool.\n")\<close>: a heading with the tag \<open>h1\<close> and
      a paragraph, each with its \<open>inline\<close> child and the text below it.\<close>
  "tiny_tool_readme = Root
     [Node ''heading'' 0 [] [Node ''inline'' 1 ''Foo'' [Node ''text'' 0 ''Foo'' []]],
      Node ''paragraph'' 0 []
        [Node ''inline'' 1 ''A tiny tool.'' [Node ''text'' 0 ''A tiny tool.'' []]]]"

subsection \<open>first_para_after_title\<close>

fun first_paragraph :: "node list \<Rightarrow> string option" where
  \<comment> \<open>The inner loop: \<open>for nxt in siblings[idx+1:]\<close>.\<close>
  "first_paragraph [] = None"
| "first_paragraph (nxt # rest) =
     (if ntype nxt = ''paragraph'' then Some (strip (content nxt)) else first_paragraph rest)"

fun first_para_from :: "node list \<Rightarrow> string option" where
  \<comment> \<open>The outer loop: \<open>for node in ast.children\<close>. A heading of level 1 with no paragraph
      after it leaves the loop running.\<close>
  "first_para_from [] = None"
| "first_para_from (n # siblings) =
     (if ntype n = ''heading'' \<and> level n = 1
      then (case first_paragraph siblings of
              Some p \<Rightarrow> Some p
            | None \<Rightarrow> first_para_from siblings)
      else first_para_from siblings)"

definition first_para_after_title :: "syntax_tree \<Rightarrow> string option" where
  "first_para_after_title ast = first_para_from (root_children ast)"

subsection \<open>find_install_cmds\<close>

definition pip_install :: string where
  "pip_install = ''pip install''"

definition append_install_lines :: "string list \<Rightarrow> string list \<Rightarrow> string list" where
  \<comment> \<open>\<open>for line in node.content.splitlines(): if "pip install" in line: cmds.append(line.strip())\<close>\<close>
  "append_install_lines lines cmds =
     fold (\<lambda>line cmds. if contains pip_install line then cmds @ [strip line] else cmds)
       lines cmds"

definition visit_fence :: "node \<Rightarrow> string list \<Rightarrow> string list" where
  \<comment> \<open>The body of \<open>for node in ast.walk()\<close>, on the list \<open>cmds\<close>.\<close>
  "visit_fence n cmds =
     (if ntype n = ''fence'' \<and> contains pip_install (content n)
      then append_install_lines (splitlines (content n)) cmds
      else cmds)"

definition find_install_cmds :: "syntax_tree \<Rightarrow> string list" where
  "find_install_cmds ast = dict_fromkeys (fold visit_fence (walk_tree ast) [])"

subsection \<open>list_after_heading\<close>

definition item_text :: "node \<Rightarrow> string" where
  \<comment> \<open>\<open>" ".join(c.content.strip() for c in item.walk() if c.type == "text")\<close>\<close>
  "item_text item =
     join '' '' (map (\<lambda>c. strip (content c)) (filter (\<lambda>c. ntype c = ''text'') (walk item)))"

definition bullet_items :: "node \<Rightarrow> string list" where
  \<comment> \<open>The items of a bullet list: the texts that are not empty.\<close>
  "bullet_items nxt = filter (\<lambda>text. text \<noteq> []) (map item_text (children nxt))"

fun first_bullet_list :: "node list \<Rightarrow> string list option" where
  "first_bullet_list [] = None"
| "first_bullet_list (nxt # rest) =
     (if ntype nxt = ''bullet_list'' then Some (bullet_items nxt) else first_bullet_list rest)"

definition heading_matches :: "string list \<Rightarrow> node \<Rightarrow> bool" where
  "heading_matches keys_lower n =
     (ntype n = ''heading'' \<and> (level n = 2 \<or> level n = 3) \<and>
      (\<exists>kw \<in> set keys_lower. contains kw (lower (strip (content n)))))"

fun list_after_from :: "string list \<Rightarrow> node list \<Rightarrow> string list option" where
  \<comment> \<open>The walk over a list of siblings and what lies below them, in the order of
      \<open>ast.walk()\<close>: \<open>None\<close> while the loop has not returned.\<close>
  "list_after_from keys_lower [] = None"
| "list_after_from keys_lower (Node t l c cs # siblings) =
     (case (if heading_matches keys_lower (Node t l c cs) then first_bullet_list siblings
            else None) of
        Some items \<Rightarrow> Some items
      | None \<Rightarrow>
          (case list_after_from keys_lower cs of
             Some items \<Rightarrow> Some items
           | None \<Rightarrow> list_after_from keys_lower siblings))"

definition list_after_heading :: "syntax_tree \<Rightarrow> string list \<Rightarrow> string list" where
  "list_after_heading ast keywords =
     (case list_after_from (map lower keywords) (root_children ast) of
        Some items \<Rightarrow> items
      | None \<Rightarrow> [])"

section \<open>JSON values\<close>

text \<open>
  The graph is a tree of Python dicts, lists, strings, integers, booleans and \<open>None\<close>, as
  \<open>json.loads\<close> returns it and \<open>json.dump\<close> takes it. A dict is the list of its items in
  insertion order; a dict has no key twice, and \<open>map_of\<close> reads the first item of a key.
  Numbers are the integers: floating point numbers are not modelled.
\<close>

datatype json =
    JNull
  | JBool bool
  | JInt int
  | JStr string
  | JArr "json list"
  | JObj "(string \<times> json) list"

section \<open>The builder\<close>

record license_info =
  spdx_id :: string

text \<open>
  The metadata record is the repository object of the GitHub API with the fields the builder
  reads. \<open>None\<close> is the \<open>null\<close> of the API; every key is present, so the defaults of
  \<open>meta.get\<close> are never taken.
\<close>

record meta =
  html_url :: string
  name :: string
  description :: "string option"
  license :: "license_info option"
  topics :: "string list"
  language :: "string option"

definition CONTEXT :: json where
  "CONTEXT = JObj
     [(''@vocab'', JStr ''http://schema.org/''),
      (''schema'', JStr ''http://schema.org/''),
      (''doap'', JStr ''http://usefulinc.com/ns/doap#''),
      (''dcterms'', JStr ''http://purl.org/dc/terms/''),
      (''spdx'', JStr ''https://spdx.org/licenses/'')]"

definition str_or_none :: "string option \<Rightarrow> json" where
  "str_or_none v = (case v of None \<Rightarrow> JNull | Some s \<Rightarrow> JStr s)"

definition resolve_description :: "meta \<Rightarrow> syntax_tree \<Rightarrow> string option" where
  \<comment> \<open>\<open>meta["description"] or first_para_after_title(ast)\<close>: the left operand when it is
      truthy, the right operand otherwise.\<close>
  "resolve_description m ast =
     (case description m of
        Some d \<Rightarrow> (if d \<noteq> [] then Some d else first_para_after_title ast)
      | None \<Rightarrow> first_para_after_title ast)"

definition root_node :: "meta \<Rightarrow> syntax_tree \<Rightarrow> string list \<Rightarrow> json" where
  \<comment> \<open>The dict \<open>root\<close>, with the list that \<open>root["hasPart"]\<close> holds.\<close>
  "root_node m ast parts = JObj
     [(''@id'', JStr (html_url m)),
      (''@type'', JArr [JStr ''SoftwareApplication'', JStr ''doap:Project'']),
      (''name'', JStr (name m)),
      (''description'', str_or_none (resolve_description m ast)),
      (''codeRepository'', JStr (html_url m)),
      (''programmingLanguage'', str_or_none (language m)),
      (''applicationCategory'', (if topics m \<noteq> [] then JArr (map JStr (topics m)) else JNull)),
      (''license'',
         (case license m of
            Some license_info \<Rightarrow>
              JObj [(''@id'', JStr (''https://spdx.org/licenses/'' @ spdx_id license_info @ ''.html''))]
          | None \<Rightarrow> JNull)),
      (''hasPart'', JArr (map JStr parts))]"

definition howto_node :: "meta \<Rightarrow> string list \<Rightarrow> json" where
  "howto_node m install_cmds = JObj
     [(''@id'', JStr (html_url m @ ''#howto-install'')),
      (''@type'', JStr ''HowTo''),
      (''name'', JStr (''Install '' @ name m)),
      (''tool'', JArr (map JStr install_cmds))]"

definition list_items :: "string list \<Rightarrow> json list" where
  \<comment> \<open>\<open>[{"@type": "ListItem", "position": i+1, "name": f} for i, f in enumerate(features)]\<close>\<close>
  "list_items xs =
     map (\<lambda>(i, f). JObj [(''@type'', JStr ''ListItem''), (''position'', JInt (int i + 1)),
                          (''name'', JStr f)])
       (enumerate 0 xs)"

definition itemlist_node :: "string \<Rightarrow> string \<Rightarrow> string list \<Rightarrow> json" where
  "itemlist_node node_id title xs = JObj
     [(''@id'', JStr node_id),
      (''@type'', JStr ''ItemList''),
      (''name'', JStr title),
      (''itemListElement'', JArr (list_items xs))]"

text \<open>
  \<open>graph = [root]\<close> puts the dict \<open>root\<close> itself into the list, so each later
  \<open>root["hasPart"].append\<close> is seen through \<open>graph[0]\<close>. The state of the builder is the list
  behind \<open>root["hasPart"]\<close> and the nodes appended to \<open>graph\<close> after the root; the root of
  the emitted graph is built from the final list.
\<close>

record builder =
  has_part :: "string list"
  appended :: "json list"

definition add_part :: "string \<Rightarrow> json \<Rightarrow> builder \<Rightarrow> builder" where
  \<comment> \<open>\<open>root["hasPart"].append(node_id); graph.append(node)\<close>\<close>
  "add_part node_id nd b = b\<lparr>has_part := has_part b @ [node_id], appended := appended b @ [nd]\<rparr>"

definition build_parts :: "meta \<Rightarrow> syntax_tree \<Rightarrow> builder" where
  "build_parts m ast =
     (let repo_url = html_url m;
          install_cmds = find_install_cmds ast;
          features = list_after_heading ast [''feature'', ''key feature''];
          platforms = list_after_heading ast [''supported platform'', ''compatibility''];
          b0 = \<lparr>has_part = [], appended = []\<rparr>;
          b1 = (if install_cmds \<noteq> []
                then add_part (repo_url @ ''#howto-install'') (howto_node m install_cmds) b0
                else b0);
          b2 = (if features \<noteq> []
                then add_part (repo_url @ ''#features'')
                       (itemlist_node (repo_url @ ''#features'') ''Key Features'' features) b1
                else b1);
          b3 = (if platforms \<noteq> []
                then add_part (repo_url @ ''#supported-platforms'')
                       (itemlist_node (repo_url @ ''#supported-platforms'') ''Supported Platforms''
                          platforms) b2
                else b2)
      in b3)"

definition build_jsonld :: "meta \<Rightarrow> syntax_tree \<Rightarrow> string \<Rightarrow> json" where
  \<comment> \<open>\<open>now\<close> is the time stamp that \<open>datetime.now\<close> returned.\<close>
  "build_jsonld m ast now =
     (let b = build_parts m ast
      in JObj
           [(''@context'', CONTEXT),
            (''@graph'', JArr (root_node m ast (has_part b) # appended b)),
            (''dcterms:modified'', JStr now)])"

section \<open>Reading the graph\<close>

text \<open>
  The reader takes whatever \<open>json.loads\<close> returned. Where Python raises, the model returns
  the exception on the left of a sum.
\<close>

datatype error = AttributeError | TypeError | JSONDecodeError | UnicodeDecodeError | OSError

definition bind_err :: "error + 'a \<Rightarrow> ('a \<Rightarrow> error + 'b) \<Rightarrow> error + 'b" where
  \<comment> \<open>An exception of the first computation ends the second.\<close>
  "bind_err r f = (case r of Inl e \<Rightarrow> Inl e | Inr v \<Rightarrow> f v)"

definition truthy :: "json \<Rightarrow> bool" where
  \<comment> \<open>The truth value Python gives a value in \<open>if v\<close>, \<open>v or w\<close> and \<open>not v\<close>.\<close>
  "truthy v =
     (case v of
        JNull \<Rightarrow> False
      | JBool b \<Rightarrow> b
      | JInt i \<Rightarrow> i \<noteq> 0
      | JStr s \<Rightarrow> s \<noteq> []
      | JArr xs \<Rightarrow> xs \<noteq> []
      | JObj kvs \<Rightarrow> kvs \<noteq> [])"

definition py_or :: "json \<Rightarrow> json \<Rightarrow> json" where
  \<comment> \<open>\<open>v or w\<close>\<close>
  "py_or v w = (if truthy v then v else w)"

fun py_eq :: "json \<Rightarrow> json \<Rightarrow> bool" where
  \<comment> \<open>\<open>v == w\<close>: \<open>True\<close> and \<open>False\<close> are the integers 1 and 0, and two dicts are equal
      when they have the same keys with equal values, in any order.\<close>
  "py_eq JNull JNull = True"
| "py_eq (JBool a) (JBool b) = (a = b)"
| "py_eq (JBool a) (JInt j) = ((if a then 1 else 0) = j)"
| "py_eq (JInt i) (JBool b) = (i = (if b then 1 else 0))"
| "py_eq (JInt i) (JInt j) = (i = j)"
| "py_eq (JStr s) (JStr t) = (s = t)"
| "py_eq (JArr xs) (JArr ys) = list_all2 py_eq xs ys"
| "py_eq (JObj a) (JObj b) =
     (length a = length b \<and>
      list_all (\<lambda>(k, v). case map_of b k of None \<Rightarrow> False | Some w \<Rightarrow> py_eq v w) a)"
| "py_eq _ _ = False"

definition get :: "json \<Rightarrow> string \<Rightarrow> json \<Rightarrow> error + json" where
  \<comment> \<open>\<open>d.get(key, default)\<close>: only a dict has the method.\<close>
  "get d key dflt =
     (case d of
        JObj kvs \<Rightarrow> Inr (case map_of kvs key of Some v \<Rightarrow> v | None \<Rightarrow> dflt)
      | _ \<Rightarrow> Inl AttributeError)"

definition iterate :: "json \<Rightarrow> error + json list" where
  \<comment> \<open>The values a \<open>for\<close> loop over \<open>v\<close> runs through: the elements of a list, the keys of
      a dict, the characters of a string.\<close>
  "iterate v =
     (case v of
        JArr xs \<Rightarrow> Inr xs
      | JObj kvs \<Rightarrow> Inr (map (\<lambda>(k, _). JStr k) kvs)
      | JStr s \<Rightarrow> Inr (map (\<lambda>c. JStr [c]) s)
      | _ \<Rightarrow> Inl TypeError)"

definition graph_nodes :: "json \<Rightarrow> error + json" where
  "graph_nodes doc = get doc ''@graph'' (JArr [])"

definition in_types :: "string \<Rightarrow> json \<Rightarrow> error + bool" where
  \<comment> \<open>\<open>if isinstance(types, str): types = [types]\<close>, then \<open>x in types\<close>.\<close>
  "in_types x types =
     (case types of
        JStr s \<Rightarrow> Inr (x = s)
      | JArr xs \<Rightarrow> Inr (JStr x \<in> set xs)
      | JObj kvs \<Rightarrow> Inr (x \<in> set (map fst kvs))
      | _ \<Rightarrow> Inl TypeError)"

fun project_node_from :: "json list \<Rightarrow> error + json" where
  "project_node_from [] = Inr (JObj [])"
| "project_node_from (n # ns) =
     bind_err (get n ''@type'' (JArr [])) (\<lambda>types.
     bind_err (in_types ''SoftwareApplication'' types) (\<lambda>found.
     if found then Inr n else project_node_from ns))"

definition project_node :: "json \<Rightarrow> error + json" where
  "project_node doc =
     bind_err (graph_nodes doc) (\<lambda>g. bind_err (iterate g) project_node_from)"

fun node_by_id_from :: "json \<Rightarrow> json list \<Rightarrow> error + json" where
  "node_by_id_from node_id [] = Inr (JObj [])"
| "node_by_id_from node_id (n # ns) =
     bind_err (get n ''@id'' JNull) (\<lambda>v.
     if py_eq v node_id then Inr n else node_by_id_from node_id ns)"

definition node_by_id :: "json \<Rightarrow> json \<Rightarrow> error + json" where
  "node_by_id doc node_id =
     bind_err (graph_nodes doc) (\<lambda>g. bind_err (iterate g) (node_by_id_from node_id))"

fun install_node_from :: "json \<Rightarrow> json list \<Rightarrow> error + json" where
  "install_node_from doc [] = Inr (JObj [])"
| "install_node_from doc (pid # pids) =
     bind_err (node_by_id doc pid) (\<lambda>n.
     bind_err (get n ''@type'' JNull) (\<lambda>t.
     if t = JStr ''HowTo'' then Inr n else install_node_from doc pids))"

definition install_node :: "json \<Rightarrow> error + json" where
  "install_node doc =
     bind_err (project_node doc) (\<lambda>proj.
     bind_err (get proj ''hasPart'' (JArr [])) (\<lambda>parts.
     bind_err (iterate parts) (install_node_from doc)))"

definition lower_json :: "json \<Rightarrow> error + string" where
  \<comment> \<open>\<open>v.lower()\<close>: only a string has the method.\<close>
  "lower_json v = (case v of JStr s \<Rightarrow> Inr (lower s) | _ \<Rightarrow> Inl AttributeError)"

fun itemlist_from :: "string \<Rightarrow> json list \<Rightarrow> error + json" where
  "itemlist_from keyword [] = Inr (JObj [])"
| "itemlist_from keyword (n # ns) =
     bind_err (get n ''@type'' JNull) (\<lambda>t.
     if t = JStr ''ItemList''
     then bind_err (get n ''name'' JNull) (\<lambda>nm.
          bind_err (lower_json (py_or nm (JStr []))) (\<lambda>text.
          if contains (lower keyword) text then Inr n else itemlist_from keyword ns))
     else itemlist_from keyword ns)"

definition itemlist_by_name :: "json \<Rightarrow> string \<Rightarrow> error + json" where
  "itemlist_by_name doc keyword =
     bind_err (graph_nodes doc) (\<lambda>g. bind_err (iterate g) (itemlist_from keyword))"

fun example_nodes_from :: "json \<Rightarrow> json list \<Rightarrow> error + json list" where
  "example_nodes_from doc [] = Inr []"
| "example_nodes_from doc (pid # pids) =
     bind_err (node_by_id doc pid) (\<lambda>n.
     bind_err (get n ''@type'' JNull) (\<lambda>t.
     bind_err (example_nodes_from doc pids) (\<lambda>rest.
     Inr (if t = JStr ''CreativeWork'' then n # rest else rest))))"

definition example_nodes :: "json \<Rightarrow> error + json list" where
  "example_nodes doc =
     bind_err (project_node doc) (\<lambda>proj.
     bind_err (get proj ''hasPart'' (JArr [])) (\<lambda>parts.
     bind_err (iterate parts) (example_nodes_from doc)))"

definition license_text :: "json \<Rightarrow> json" where
  "license_text lic =
     (case lic of
        JObj kvs \<Rightarrow> (case map_of kvs ''@id'' of Some v \<Rightarrow> v | None \<Rightarrow> JStr [])
      | JStr s \<Rightarrow> JStr s
      | _ \<Rightarrow> JStr [])"

section \<open>The retrieval configuration\<close>

fun strings_of :: "json list \<Rightarrow> error + string list" where
  \<comment> \<open>\<open>str.join\<close> takes strings only.\<close>
  "strings_of [] = Inr []"
| "strings_of (JStr s # vs) = bind_err (strings_of vs) (\<lambda>ss. Inr (s # ss))"
| "strings_of (_ # vs) = Inl TypeError"

definition join_json :: "string \<Rightarrow> json list \<Rightarrow> error + json" where
  \<comment> \<open>\<open>sep.join(vs)\<close>\<close>
  "join_json sep vs = bind_err (strings_of vs) (\<lambda>ss. Inr (JStr (join sep ss)))"

definition is_dict :: "json \<Rightarrow> bool" where
  "is_dict v = (case v of JObj _ \<Rightarrow> True | _ \<Rightarrow> False)"

fun names_of :: "json list \<Rightarrow> error + json list" where
  \<comment> \<open>\<open>li.get("name", "") for li in ... if isinstance(li, dict)\<close>\<close>
  "names_of [] = Inr []"
| "names_of (li # lis) =
     (if is_dict li
      then bind_err (get li ''name'' (JStr [])) (\<lambda>nm.
           bind_err (names_of lis) (\<lambda>rest. Inr (nm # rest)))
      else names_of lis)"

fun texts_of :: "json list \<Rightarrow> error + json list" where
  \<comment> \<open>\<open>ex.get("text", "") for ex in ...\<close>\<close>
  "texts_of [] = Inr []"
| "texts_of (ex # exs) =
     bind_err (get ex ''text'' (JStr [])) (\<lambda>t.
     bind_err (texts_of exs) (\<lambda>rest. Inr (t # rest)))"

definition project_attr :: "string \<Rightarrow> json \<Rightarrow> json \<Rightarrow> error + json" where
  \<comment> \<open>\<open>project_node(g).get(key, default)\<close>\<close>
  "project_attr key dflt g = bind_err (project_node g) (\<lambda>proj. get proj key dflt)"

definition install_commands :: "json \<Rightarrow> error + json" where
  \<comment> \<open>\<open>"\n".join(install_node(g).get("tool", []) or [])\<close>\<close>
  "install_commands g =
     bind_err (install_node g) (\<lambda>n.
     bind_err (get n ''tool'' (JArr [])) (\<lambda>tool.
     bind_err (iterate (py_or tool (JArr []))) (join_json [CHR 0x0A])))"

definition itemlist_names :: "string \<Rightarrow> json \<Rightarrow> error + json" where
  \<comment> \<open>The getter of \<open>features:list\<close> and of \<open>platforms:list\<close>.\<close>
  "itemlist_names keyword g =
     bind_err (itemlist_by_name g keyword) (\<lambda>n.
     bind_err (get n ''itemListElement'' (JArr [])) (\<lambda>elems.
     bind_err (iterate elems) (\<lambda>lis.
     bind_err (names_of lis) (join_json [CHR 0x0A]))))"

definition examples_code :: "json \<Rightarrow> error + json" where
  "examples_code g =
     bind_err (example_nodes g) (\<lambda>exs.
     bind_err (texts_of exs) (join_json [CHR 0x0A, CHR 0x0A]))"

definition project_license :: "json \<Rightarrow> error + json" where
  "project_license g =
     bind_err (project_attr ''license'' JNull g) (\<lambda>lic. Inr (license_text lic))"

definition project_topics :: "json \<Rightarrow> error + json" where
  \<comment> \<open>\<open>", ".join(project_node(g).get("applicationCategory", []) or [])\<close>\<close>
  "project_topics g =
     bind_err (project_attr ''applicationCategory'' (JArr []) g) (\<lambda>cats.
     bind_err (iterate (py_or cats (JArr []))) (join_json '', ''))"

definition FIELDS :: "(string \<times> (json \<Rightarrow> error + json)) list" where
  "FIELDS =
     [(''project:name'', project_attr ''name'' JNull),
      (''project:description'', project_attr ''description'' JNull),
      (''install:commands'', install_commands),
      (''features:list'', itemlist_names ''feature''),
      (''platforms:list'', itemlist_names ''platform''),
      (''examples:code'', examples_code),
      (''project:license'', project_license),
      (''project:topics'', project_topics)]"

definition INTENT_KEYWORDS :: "(string \<times> string list) list" where
  "INTENT_KEYWORDS =
     [(''purpose'', [''what is'', ''what does'', ''purpose'', ''about'', ''overview'']),
      (''install'', [''install'', ''installation'', ''setup'', ''pip'', ''how to install'']),
      (''example'', [''example'', ''usage'', ''code'', ''snippet'', ''how to use'']),
      (''features'', [''feature'', ''capability'', ''highlights'']),
      (''platforms'', [''platform'', ''supported'', ''python version'', ''os'',
         ''operating system'', ''architecture'']),
      (''license'', [''license'', ''licence'']),
      (''topics'', [''topic'', ''category'', ''tags'', ''keywords''])]"

definition INTENT_FIELD_WEIGHTS :: "(string \<times> (string \<times> int) list) list" where
  "INTENT_FIELD_WEIGHTS =
     [(''purpose'', [(''project:description'', 3), (''project:name'', 1)]),
      (''install'', [(''install:commands'', 3)]),
      (''example'', [(''examples:code'', 3)]),
      (''features'', [(''features:list'', 3)]),
      (''platforms'', [(''platforms:list'', 3)]),
      (''license'', [(''project:license'', 3)]),
      (''topics'', [(''project:topics'', 3)])]"

section \<open>The retrieval logic\<close>

definition tokenize :: "string \<Rightarrow> string list" where
  "tokenize text = map lower (split text)"

definition count_tokens :: "string list \<Rightarrow> string \<Rightarrow> int" where
  \<comment> \<open>The \<open>defaultdict(int)\<close> that \<open>for t in ttokens: tf[t] += 1\<close> fills.\<close>
  "count_tokens ttokens = fold (\<lambda>t tf. tf(t := tf t + 1)) ttokens (\<lambda>_. 0)"

definition score_chunk :: "string \<Rightarrow> json \<Rightarrow> error + int" where
  \<comment> \<open>A text that is truthy and no string has no \<open>split\<close>.\<close>
  "score_chunk query text =
     (if \<not> truthy text then Inr 0
      else (case text of
              JStr s \<Rightarrow>
                (let qtokens = tokenize query; tf = count_tokens (tokenize s)
                 in Inr (sum_list (map tf qtokens)))
            | _ \<Rightarrow> Inl AttributeError))"

definition guess_intents :: "string \<Rightarrow> string list" where
  "guess_intents query =
     (let ql = lower query;
          hits = map fst (filter (\<lambda>(intent, keys). \<exists>k \<in> set keys. contains k ql) INTENT_KEYWORDS)
      in if hits \<noteq> [] then hits else [''purpose''])"

section \<open>The command line of the query\<close>

fun chunks_from :: "(string \<times> (json \<Rightarrow> error + json)) list \<Rightarrow> json \<Rightarrow> error + (string \<times> json) list" where
  \<comment> \<open>\<open>[(label, getter(doc)) for label, getter in FIELDS if getter(doc)]\<close>\<close>
  "chunks_from [] doc = Inr []"
| "chunks_from ((label, getter) # registry) doc =
     bind_err (getter doc) (\<lambda>text.
     bind_err (chunks_from registry doc) (\<lambda>rest.
     Inr (if truthy text then (label, text) # rest else rest)))"

definition intent_weight :: "string \<Rightarrow> string \<Rightarrow> int" where
  \<comment> \<open>\<open>INTENT_FIELD_WEIGHTS.get(intent, {}).get(label, 0)\<close>\<close>
  "intent_weight intent label =
     (case map_of (case map_of INTENT_FIELD_WEIGHTS intent of Some d \<Rightarrow> d | None \<Rightarrow> []) label of
        Some w \<Rightarrow> w
      | None \<Rightarrow> 0)"

definition chunk_weight :: "string list \<Rightarrow> string \<Rightarrow> int" where
  \<comment> \<open>\<open>weight = 1\<close>, then \<open>for intent in intents: weight += ...\<close>\<close>
  "chunk_weight intents label = fold (\<lambda>intent weight. weight + intent_weight intent label) intents 1"

definition chunk_total :: "string list \<Rightarrow> string \<Rightarrow> int \<Rightarrow> int" where
  \<comment> \<open>\<open>base * weight if base > 0 else weight if any(i in intents for i in INTENT_FIELD_WEIGHTS) else base\<close>\<close>
  "chunk_total intents label base =
     (let weight = chunk_weight intents label
      in if base > 0 then base * weight
         else if \<exists>i \<in> set (map fst INTENT_FIELD_WEIGHTS). i \<in> set intents then weight
         else base)"

record best =
  best_label :: "string option"
  best_content :: "json option"
  best_score :: int

fun pick_best :: "string \<Rightarrow> string list \<Rightarrow> (string \<times> json) list \<Rightarrow> best \<Rightarrow> error + best" where
  \<comment> \<open>\<open>for label, content in chunks\<close>\<close>
  "pick_best question intents [] b = Inr b"
| "pick_best question intents ((label, text) # chunks) b =
     bind_err (score_chunk question text) (\<lambda>base.
     let total = chunk_total intents label base
     in pick_best question intents chunks
          (if total > best_score b
           then \<lparr>best_label = Some label, best_content = Some text, best_score = total\<rparr>
           else b))"

text \<open>
  What the query prints. \<open>Answer label text\<close> stands for the text of \<open>format_answer\<close>: a
  heading made from the label, a line of dashes of the same length, and \<open>text\<close>, which is
  \<open>content.strip()\<close>.
\<close>

datatype outcome = CantFind | NoKnowledge | NoRelevant | Answer string string

definition list_like :: "string list" where
  "list_like = [''examples:code'', ''install:commands'', ''features:list'', ''platforms:list'']"

definition first_block :: "json \<Rightarrow> error + json" where
  \<comment> \<open>\<open>best_content.split("\n\n")[0].strip()\<close>\<close>
  "first_block v =
     (case v of
        JStr s \<Rightarrow> Inr (JStr (strip (split_blank_first s)))
      | _ \<Rightarrow> Inl AttributeError)"

definition format_answer :: "string \<Rightarrow> json \<Rightarrow> error + outcome" where
  "format_answer label v =
     (case v of JStr s \<Rightarrow> Inr (Answer label (strip s)) | _ \<Rightarrow> Inl AttributeError)"

definition answer_doc :: "string \<Rightarrow> json \<Rightarrow> error + outcome" where
  \<comment> \<open>\<open>main\<close> from \<open>intents = guess_intents(args.question)\<close> on, with the document loaded.\<close>
  "answer_doc question doc =
     (let intents = guess_intents question
      in bind_err (chunks_from FIELDS doc) (\<lambda>chunks.
         if chunks = [] then Inr NoKnowledge
         else bind_err (pick_best question intents chunks
                          \<lparr>best_label = None, best_content = None, best_score = - 1\<rparr>) (\<lambda>b.
              case (best_label b, best_content b) of
                (Some label, Some v) \<Rightarrow>
                  (if label \<noteq> []
                   then bind_err (if label \<in> set list_like then first_block v else Inr v)
                          (format_answer label)
                   else Inr NoRelevant)
              | _ \<Rightarrow> Inr NoRelevant)))"

text \<open>
  The saved graph file as \<open>main\<close> meets it, through \<open>path.exists()\<close> and
  \<open>path.read_text(encoding="utf-8")\<close>: the path does not exist; or it exists and reading it
  raises, \<open>UnicodeDecodeError\<close> for bytes that are not UTF-8 and an \<open>OSError\<close> for a
  directory or a file that may not be read; or reading it returns its text.
\<close>

datatype saved_file = Missing | Unreadable error | Readable string

definition main :: "(string \<Rightarrow> error + json) \<Rightarrow> string \<Rightarrow> saved_file \<Rightarrow> error + outcome" where
  \<comment> \<open>\<open>loads\<close> is \<open>json.loads\<close>.\<close>
  "main loads question file =
     (case file of
        Missing \<Rightarrow> Inr CantFind
      | Unreadable e \<Rightarrow> Inl e
      | Readable s \<Rightarrow> bind_err (loads s) (answer_doc question))"

section \<open>Notions of the specification\<close>

text \<open>
  The definitions of this section follow the words of the specification, not the code; the
  theorems compare the code with them.
\<close>

fun first_seen :: "'a list \<Rightarrow> 'a list" where
  \<comment> \<open>Stable deduplication: an element stays where it is seen first, and its later
      occurrences go.\<close>
  "first_seen [] = []"
| "first_seen (x # xs) = x # filter (\<lambda>y. y \<noteq> x) (first_seen xs)"

definition install_lines :: "syntax_tree \<Rightarrow> string list" where
  \<comment> \<open>The trimmed lines that contain \<open>pip install\<close>, of the fenced code blocks whose content
      contains it, in the order of the walk.\<close>
  "install_lines ast =
     concat (map (\<lambda>n. map strip (filter (contains pip_install) (splitlines (content n))))
       (filter (\<lambda>n. ntype n = ''fence'' \<and> contains pip_install (content n)) (walk_tree ast)))"

definition has_key :: "json \<Rightarrow> string \<Rightarrow> bool" where
  \<comment> \<open>The node is a dict that carries the key.\<close>
  "has_key n key = (case n of JObj kvs \<Rightarrow> key \<in> set (map fst kvs) | _ \<Rightarrow> False)"

definition nodes_with_id :: "json list \<Rightarrow> string \<Rightarrow> json list" where
  \<comment> \<open>The nodes of a graph that an identifier resolves to.\<close>
  "nodes_with_id g node_id = filter (\<lambda>n. get n ''@id'' JNull = Inr (JStr node_id)) g"

definition auxiliary_nodes :: "meta \<Rightarrow> syntax_tree \<Rightarrow> json list" where
  \<comment> \<open>The auxiliary nodes in the order of their creation: the HowTo node, the list of
      features, the list of platforms, each only when its extractor found something.\<close>
  "auxiliary_nodes m ast =
     (if find_install_cmds ast \<noteq> []
      then [howto_node m (find_install_cmds ast)] else []) @
     (if list_after_heading ast [''feature'', ''key feature''] \<noteq> []
      then [itemlist_node (html_url m @ ''#features'') ''Key Features''
              (list_after_heading ast [''feature'', ''key feature''])]
      else []) @
     (if list_after_heading ast [''supported platform'', ''compatibility''] \<noteq> []
      then [itemlist_node (html_url m @ ''#supported-platforms'') ''Supported Platforms''
              (list_after_heading ast [''supported platform'', ''compatibility''])]
      else [])"

definition node_id_of :: "json \<Rightarrow> json" where
  \<comment> \<open>The value under \<open>@id\<close>, \<open>JNull\<close> when there is none.\<close>
  "node_id_of n = (case get n ''@id'' JNull of Inr v \<Rightarrow> v | Inl _ \<Rightarrow> JNull)"

definition term_overlap :: "string \<Rightarrow> string \<Rightarrow> int" where
  \<comment> \<open>The base score: the sum, over the tokens of the question, of the number of times the
      token occurs among the tokens of the text.\<close>
  "term_overlap question text =
     (\<Sum>q\<leftarrow>tokenize question. int (count_list (tokenize text) q))"

definition configured :: "string \<Rightarrow> (string \<times> int) list" where
  \<comment> \<open>The weight entries configured for an intent.\<close>
  "configured intent = (case map_of INTENT_FIELD_WEIGHTS intent of Some d \<Rightarrow> d | None \<Rightarrow> [])"

definition configured_weight :: "string \<Rightarrow> string \<Rightarrow> int" where
  \<comment> \<open>The weight an intent configures for a label, 0 when it configures none.\<close>
  "configured_weight intent label =
     (case map_of (configured intent) label of Some w \<Rightarrow> w | None \<Rightarrow> 0)"

definition is_text :: "json \<Rightarrow> bool" where
  \<comment> \<open>The value is a string.\<close>
  "is_text v = (case v of JStr _ \<Rightarrow> True | _ \<Rightarrow> False)"

section \<open>The text of a saved graph\<close>

text \<open>
  \<open>json.dump\<close> and \<open>json.loads\<close> belong to Python's standard library, not to the
  repository; the two definitions follow the format the library documents. \<open>json_dumps\<close> is
  the text that \<open>json.dump(doc, f, ensure_ascii=False, indent=2)\<close> writes: two spaces of
  indentation for each level, a comma at the end of a line between items, a colon and a space
  after a key, and in a string a backslash escape for the double quote, the backslash, line
  feed, carriage return, tab, backspace and form feed, and the escape with \<open>u00\<close> and two
  hexadecimal digits for the other characters below 32. \<open>json_loads\<close> reads the JSON texts
  that stand for a value of the model. A text with a number that has a fraction or an
  exponent, with \<open>NaN\<close> or \<open>Infinity\<close>, or with an escape for a character above 255 stands
  for a value the model does not have; \<open>json_loads\<close> rejects it like a malformed text, and
  no theorem below is about such a text. Writing the text to the file and reading it back is
  the identity on texts.
\<close>

definition newline_indent :: "nat \<Rightarrow> string" where
  "newline_indent lvl = CHR 0x0A # replicate (2 * lvl) CHR 0x20"

definition digit_char :: "nat \<Rightarrow> char" where
  "digit_char d = char_of (48 + d)"

fun str_nat :: "nat \<Rightarrow> string" where
  \<comment> \<open>The decimal digits of a natural number.\<close>
  "str_nat n = (if n < 10 then [digit_char n] else str_nat (n div 10) @ [digit_char (n mod 10)])"

definition str_int :: "int \<Rightarrow> string" where
  \<comment> \<open>\<open>str(i)\<close>\<close>
  "str_int i = (if i < 0 then CHR ''-'' # str_nat (nat (- i)) else str_nat (nat i))"

definition hex_char :: "nat \<Rightarrow> char" where
  \<comment> \<open>A hexadecimal digit, in lower case.\<close>
  "hex_char d = (if d < 10 then char_of (48 + d) else char_of (87 + d))"

definition escape_char :: "char \<Rightarrow> string" where
  "escape_char c =
     (if c = CHR 0x22 then [CHR 0x5C, CHR 0x22]
      else if c = CHR 0x5C then [CHR 0x5C, CHR 0x5C]
      else if c = CHR 0x0A then [CHR 0x5C, CHR ''n'']
      else if c = CHR 0x0D then [CHR 0x5C, CHR ''r'']
      else if c = CHR 0x09 then [CHR 0x5C, CHR ''t'']
      else if c = CHR 0x08 then [CHR 0x5C, CHR ''b'']
      else if c = CHR 0x0C then [CHR 0x5C, CHR ''f'']
      else if (of_char c :: nat) < 32
        then [CHR 0x5C, CHR ''u'', CHR ''0'', CHR ''0'',
              hex_char (of_char c div 16), hex_char (of_char c mod 16)]
      else [c])"

definition encode_str :: "string \<Rightarrow> string" where
  \<comment> \<open>A string in double quotes.\<close>
  "encode_str s = CHR 0x22 # concat (map escape_char s) @ [CHR 0x22]"

fun dumps :: "nat \<Rightarrow> json \<Rightarrow> string" where
  \<comment> \<open>The text of a value that stands at a level of indentation.\<close>
  "dumps lvl JNull = ''null''"
| "dumps lvl (JBool b) = (if b then ''true'' else ''false'')"
| "dumps lvl (JInt i) = str_int i"
| "dumps lvl (JStr s) = encode_str s"
| "dumps lvl (JArr xs) =
     (if xs = [] then ''[]''
      else ''['' @ newline_indent (Suc lvl) @
           join ('','' @ newline_indent (Suc lvl)) (map (dumps (Suc lvl)) xs) @
           newline_indent lvl @ '']'')"
| "dumps lvl (JObj kvs) =
     (if kvs = [] then ''{}''
      else ''{'' @ newline_indent (Suc lvl) @
           join ('','' @ newline_indent (Suc lvl))
             (map (\<lambda>kv. encode_str (fst kv) @ '': '' @ dumps (Suc lvl) (snd kv)) kvs) @
           newline_indent lvl @ ''}'')"

definition json_dumps :: "json \<Rightarrow> string" where
  "json_dumps v = dumps 0 v"

definition is_ws :: "char \<Rightarrow> bool" where
  \<comment> \<open>The white space of JSON.\<close>
  "is_ws c = (c = CHR 0x20 \<or> c = CHR 0x09 \<or> c = CHR 0x0A \<or> c = CHR 0x0D)"

definition skip_ws :: "string \<Rightarrow> string" where
  "skip_ws s = dropWhile is_ws s"

definition hex_value :: "char \<Rightarrow> nat option" where
  "hex_value c =
     (let n = (of_char c :: nat)
      in if 48 \<le> n \<and> n \<le> 57 then Some (n - 48)
         else if 97 \<le> n \<and> n \<le> 102 then Some (n - 87)
         else if 65 \<le> n \<and> n \<le> 70 then Some (n - 55)
         else None)"

definition unescape :: "char \<Rightarrow> char option" where
  \<comment> \<open>The character that stands behind a backslash, \<open>u\<close> apart.\<close>
  "unescape e =
     (if e = CHR 0x22 then Some (CHR 0x22)
      else if e = CHR 0x5C then Some (CHR 0x5C)
      else if e = CHR ''/'' then Some (CHR ''/'')
      else if e = CHR ''b'' then Some (CHR 0x08)
      else if e = CHR ''f'' then Some (CHR 0x0C)
      else if e = CHR ''n'' then Some (CHR 0x0A)
      else if e = CHR ''r'' then Some (CHR 0x0D)
      else if e = CHR ''t'' then Some (CHR 0x09)
      else None)"

definition unicode_escape :: "char \<Rightarrow> char \<Rightarrow> char \<Rightarrow> char \<Rightarrow> char option" where
  \<comment> \<open>The character of \<open>\uXXXX\<close>, when the model has it.\<close>
  "unicode_escape a b c d =
     (case (hex_value a, hex_value b, hex_value c, hex_value d) of
        (Some h3, Some h2, Some h1, Some h0) \<Rightarrow>
          (if h3 = 0 \<and> h2 = 0 then Some (char_of (16 * h1 + h0)) else None)
      | _ \<Rightarrow> None)"

fun scan_string :: "string \<Rightarrow> string \<Rightarrow> (string \<times> string) option" where
  \<comment> \<open>Reads a string behind its opening quote; \<open>acc\<close> is what has been read, reversed. The
      result is the string and the text behind the closing quote.\<close>
  "scan_string acc [] = None"
| "scan_string acc (c # s) =
     (if c = CHR 0x22 then Some (rev acc, s)
      else if c = CHR 0x5C then
        (case s of
           [] \<Rightarrow> None
         | e # s1 \<Rightarrow>
             (if e = CHR ''u'' then
                (case s1 of
                   h3 # h2 # h1 # h0 # s2 \<Rightarrow>
                     (case unicode_escape h3 h2 h1 h0 of
                        Some d \<Rightarrow> scan_string (d # acc) s2
                      | None \<Rightarrow> None)
                 | _ \<Rightarrow> None)
              else (case unescape e of
                      Some d \<Rightarrow> scan_string (d # acc) s1
                    | None \<Rightarrow> None)))
      else if (of_char c :: nat) < 32 then None
      else scan_string (c # acc) s)"

definition is_digit :: "char \<Rightarrow> bool" where
  "is_digit c = (48 \<le> (of_char c :: nat) \<and> (of_char c :: nat) \<le> 57)"

definition nat_of_digits :: "string \<Rightarrow> nat" where
  "nat_of_digits ds = foldl (\<lambda>n c. 10 * n + (of_char c - 48)) 0 ds"

definition scan_nat :: "string \<Rightarrow> (nat \<times> string) option" where
  \<comment> \<open>An integer part: \<open>0\<close>, or digits that do not start with \<open>0\<close>. A fraction or an exponent
      behind it makes the number a float.\<close>
  "scan_nat s =
     (let ds = takeWhile is_digit s; rest = dropWhile is_digit s
      in if ds = [] then None
         else if hd ds = CHR ''0'' \<and> length ds > 1 then Some (0, tl ds @ rest)
         else (case rest of
                 c # _ \<Rightarrow> (if c = CHR ''.'' \<or> c = CHR ''e'' \<or> c = CHR ''E'' then None
                           else Some (nat_of_digits ds, rest))
               | [] \<Rightarrow> Some (nat_of_digits ds, rest)))"

definition scan_number :: "string \<Rightarrow> (json \<times> string) option" where
  "scan_number s =
     (case s of
        [] \<Rightarrow> None
      | c # s1 \<Rightarrow>
          (if c = CHR ''-''
           then (case scan_nat s1 of Some (n, rest) \<Rightarrow> Some (JInt (- int n), rest) | None \<Rightarrow> None)
           else (case scan_nat s of Some (n, rest) \<Rightarrow> Some (JInt (int n), rest) | None \<Rightarrow> None)))"

fun dict_set :: "string \<Rightarrow> json \<Rightarrow> (string \<times> json) list \<Rightarrow> (string \<times> json) list" where
  \<comment> \<open>\<open>d[k] = v\<close>: a key that is there keeps its place.\<close>
  "dict_set k v [] = [(k, v)]"
| "dict_set k v ((k', v') # kvs) =
     (if k = k' then (k, v) # kvs else (k', v') # dict_set k v kvs)"

definition dict_of_pairs :: "(string \<times> json) list \<Rightarrow> (string \<times> json) list" where
  \<comment> \<open>\<open>dict(pairs)\<close>\<close>
  "dict_of_pairs pairs = fold (\<lambda>(k, v) d. dict_set k v d) pairs []"

fun parse_value :: "nat \<Rightarrow> string \<Rightarrow> (json \<times> string) option"
  and parse_elems :: "nat \<Rightarrow> json list \<Rightarrow> string \<Rightarrow> (json \<times> string) option"
  and parse_members :: "nat \<Rightarrow> (string \<times> json) list \<Rightarrow> string \<Rightarrow> (json \<times> string) option"
where
  \<comment> \<open>The first argument bounds the number of nested calls; \<open>json_loads\<close> starts with the
      length of the text, and the nested calls never outnumber the characters they read.
      \<open>parse_elems\<close> and \<open>parse_members\<close> carry the items read so far, reversed.\<close>
  "parse_value 0 s = None"
| "parse_value (Suc n) s =
     (case s of
        [] \<Rightarrow> None
      | c # s1 \<Rightarrow>
          (if c = CHR 0x22 then
             (case scan_string [] s1 of Some (str, rest) \<Rightarrow> Some (JStr str, rest) | None \<Rightarrow> None)
           else if c = CHR ''{'' then
             (case skip_ws s1 of
                [] \<Rightarrow> None
              | d # s2 \<Rightarrow>
                  (if d = CHR ''}'' then Some (JObj [], s2)
                   else if d = CHR 0x22 then parse_members n [] (d # s2)
                   else None))
           else if c = CHR ''['' then
             (case skip_ws s1 of
                [] \<Rightarrow> None
              | d # s2 \<Rightarrow>
                  (if d = CHR '']'' then Some (JArr [], s2)
                   else parse_elems n [] (d # s2)))
           else if prefix ''null'' s then Some (JNull, drop 4 s)
           else if prefix ''true'' s then Some (JBool True, drop 4 s)
           else if prefix ''false'' s then Some (JBool False, drop 5 s)
           else scan_number s))"
| "parse_elems 0 acc s = None"
| "parse_elems (Suc n) acc s =
     (case parse_value n s of
        None \<Rightarrow> None
      | Some (v, rest) \<Rightarrow>
          (case skip_ws rest of
             [] \<Rightarrow> None
           | d # s2 \<Rightarrow>
               (if d = CHR '']'' then Some (JArr (rev (v # acc)), s2)
                else if d = CHR '','' then parse_elems n (v # acc) (skip_ws s2)
                else None)))"
| "parse_members 0 acc s = None"
| "parse_members (Suc n) acc s =
     (case s of
        [] \<Rightarrow> None
      | q # s1 \<Rightarrow>
          (if q \<noteq> CHR 0x22 then None
           else (case scan_string [] s1 of
                   None \<Rightarrow> None
                 | Some (key, rest) \<Rightarrow>
                     (case skip_ws rest of
                        [] \<Rightarrow> None
                      | colon # s2 \<Rightarrow>
                          (if colon \<noteq> CHR '':'' then None
                           else (case parse_value n (skip_ws s2) of
                                   None \<Rightarrow> None
                                 | Some (v, rest2) \<Rightarrow>
                                     (case skip_ws rest2 of
                                        [] \<Rightarrow> None
                                      | d # s3 \<Rightarrow>
                                          (if d = CHR ''}''
                                           then Some (JObj (dict_of_pairs (rev ((key, v) # acc))), s3)
                                           else if d = CHR '',''
                                           then parse_members n ((key, v) # acc) (skip_ws s3)
                                           else None))))))))"

definition json_loads :: "string \<Rightarrow> error + json" where
  \<comment> \<open>White space may stand around the value; anything else behind it is an error.\<close>
  "json_loads s =
     (case parse_value (length s) (skip_ws s) of
        Some (v, rest) \<Rightarrow> (if skip_ws rest = [] then Inr v else Inl JSONDecodeError)
      | None \<Rightarrow> Inl JSONDecodeError)"

fun distinct_keys :: "json \<Rightarrow> bool" where
  \<comment> \<open>No dict of the value has a key twice, as in every value Python holds.\<close>
  "distinct_keys (JArr xs) = list_all distinct_keys xs"
| "distinct_keys (JObj kvs) =
     (distinct (map fst kvs) \<and> list_all (\<lambda>kv. distinct_keys (snd kv)) kvs)"
| "distinct_keys _ = True"

fun calls_of :: "json \<Rightarrow> nat" where
  \<comment> \<open>The nested calls that reading the text of a value takes at most.\<close>
  "calls_of (JArr xs) = Suc (sum_list (map (\<lambda>x. Suc (calls_of x)) xs))"
| "calls_of (JObj kvs) = Suc (sum_list (map (\<lambda>kv. Suc (calls_of (snd kv))) kvs))"
| "calls_of _ = 1"

definition delimited :: "string \<Rightarrow> bool" where
  \<comment> \<open>What stands behind an item in the text of \<open>dumps\<close>: a comma, a line feed or nothing.\<close>
  "delimited rest = (case rest of [] \<Rightarrow> True | c # _ \<Rightarrow> c = CHR '','' \<or> c = CHR 0x0A)"

section \<open>Properties of the extractors\<close>

lemma first_para_from_depth_0:
  "list_all (\<lambda>n. level n = 0) ns \<Longrightarrow> first_para_from ns = None"
  by (induction ns) auto

lemma first_para_after_title_parse_md:
  "parse_md_tree ast \<Longrightarrow> first_para_after_title ast = None"
  by (simp add: parse_md_tree_def first_para_after_title_def first_para_from_depth_0)

text \<open>
  C2 fails on the code. \<open>first_para_after_title\<close> compares \<open>node.level\<close> with 1, and the
  level of every child of the root is its depth 0, so no heading is taken for the title: on
  the tree of a README that starts with the heading \<open># Foo\<close> and the paragraph
  \<open>A tiny tool.\<close> the result is \<open>None\<close>, not the paragraph.
\<close>

theorem first_para_after_title_finds_no_title:
  "parse_md_tree tiny_tool_readme \<and> first_para_after_title tiny_tool_readme = None"
proof -
  have "parse_md_tree tiny_tool_readme"
    by (simp add: parse_md_tree_def tiny_tool_readme_def walk_tree_def)
  then show ?thesis
    by (simp add: first_para_after_title_parse_md)
qed

lemma filter_swap: "filter P (filter Q xs) = filter Q (filter P xs)"
  by (induction xs) auto

lemma filter_first_seen: "filter P (first_seen xs) = first_seen (filter P xs)"
proof (induction xs)
  case Nil
  then show ?case by simp
next
  case (Cons y xs)
  show ?case
  proof (cases "P y")
    case True
    have "filter P (filter (\<lambda>z. z \<noteq> y) (first_seen xs)) =
          filter (\<lambda>z. z \<noteq> y) (filter P (first_seen xs))"
      by (rule filter_swap)
    with True Cons show ?thesis by simp
  next
    case False
    have "filter P (filter (\<lambda>z. z \<noteq> y) (first_seen xs)) = filter P (first_seen xs)"
      unfolding filter_filter by (rule filter_cong) (use False in auto)
    with False Cons show ?thesis by simp
  qed
qed

lemma fold_fromkeys:
  "fold (\<lambda>k ks. if k \<in> set ks then ks else ks @ [k]) xs acc =
     acc @ first_seen (filter (\<lambda>x. x \<notin> set acc) xs)"
proof (induction xs arbitrary: acc)
  case Nil
  then show ?case by simp
next
  case (Cons x xs)
  show ?case
  proof (cases "x \<in> set acc")
    case True
    then show ?thesis using Cons by simp
  next
    case False
    have "filter (\<lambda>y. y \<notin> set (acc @ [x])) xs =
          filter (\<lambda>y. y \<noteq> x) (filter (\<lambda>y. y \<notin> set acc) xs)"
      unfolding filter_filter by (rule filter_cong) auto
    then have "first_seen (filter (\<lambda>y. y \<notin> set (acc @ [x])) xs) =
          filter (\<lambda>y. y \<noteq> x) (first_seen (filter (\<lambda>y. y \<notin> set acc) xs))"
      by (simp only: filter_first_seen)
    with Cons.IH [of "acc @ [x]"] False show ?thesis by simp
  qed
qed

lemma dict_fromkeys_first_seen: "dict_fromkeys xs = first_seen xs"
  by (simp add: dict_fromkeys_def fold_fromkeys)

lemma set_first_seen: "set (first_seen xs) = set xs"
  by (induction xs) auto

lemma distinct_first_seen: "distinct (first_seen xs)"
  by (induction xs) (auto simp: set_first_seen)

lemma append_install_lines_eq:
  "append_install_lines lines cmds = cmds @ map strip (filter (contains pip_install) lines)"
  unfolding append_install_lines_def by (induction lines arbitrary: cmds) auto

lemma fold_visit_fence:
  "fold visit_fence ns cmds =
     cmds @ concat (map (\<lambda>n. map strip (filter (contains pip_install) (splitlines (content n))))
       (filter (\<lambda>n. ntype n = ''fence'' \<and> contains pip_install (content n)) ns))"
  by (induction ns arbitrary: cmds) (auto simp: visit_fence_def append_install_lines_eq)

text \<open>
  C5. \<open>find_install_cmds\<close> returns the trimmed lines that contain \<open>pip install\<close>, taken in
  the order of the walk from the fenced code blocks whose content contains it, each kept at
  its first occurrence only. The result has no line twice, holds exactly the lines found, and
  is the empty list, not a failure, when no line is found.
\<close>

theorem find_install_cmds_first_seen:
  "find_install_cmds ast = first_seen (install_lines ast) \<and>
   distinct (find_install_cmds ast) \<and>
   set (find_install_cmds ast) = set (install_lines ast) \<and>
   (find_install_cmds ast = []) = (install_lines ast = [])"
proof -
  have eq: "find_install_cmds ast = first_seen (install_lines ast)"
    by (simp add: find_install_cmds_def install_lines_def fold_visit_fence
        dict_fromkeys_first_seen)
  have "(first_seen (install_lines ast) = []) = (install_lines ast = [])"
    by (cases "install_lines ast") simp_all
  with eq show ?thesis
    by (simp add: distinct_first_seen set_first_seen)
qed

section \<open>Properties of the builder\<close>

lemma graph_nodes_build:
  "graph_nodes (build_jsonld m ast now) =
     Inr (JArr (root_node m ast (has_part (build_parts m ast)) # appended (build_parts m ast)))"
  by (simp add: graph_nodes_def build_jsonld_def get_def Let_def)

lemma project_node_build:
  "project_node (build_jsonld m ast now) = Inr (root_node m ast (has_part (build_parts m ast)))"
  by (simp add: project_node_def graph_nodes_build bind_err_def iterate_def root_node_def
      get_def in_types_def)

text \<open>
  C6. The description of the Project node that \<open>build_jsonld\<close> emits, read as the query
  reads it, is the description of the metadata when that is present and not empty, otherwise
  the result of \<open>first_para_after_title\<close>, and \<open>None\<close> when that is absent too.
\<close>

theorem build_jsonld_description:
  "project_attr ''description'' JNull (build_jsonld m ast now) =
     Inr (case description m of
            None \<Rightarrow> str_or_none (first_para_after_title ast)
          | Some d \<Rightarrow> if d = [] then str_or_none (first_para_after_title ast) else JStr d)"
  by (simp add: project_attr_def project_node_build bind_err_def root_node_def get_def
      resolve_description_def str_or_none_def split: option.splits)

lemma appended_build_parts: "appended (build_parts m ast) = auxiliary_nodes m ast"
  by (simp add: build_parts_def auxiliary_nodes_def add_part_def Let_def)

lemma has_part_build_parts:
  "map JStr (has_part (build_parts m ast)) = map node_id_of (auxiliary_nodes m ast)"
  by (simp add: build_parts_def auxiliary_nodes_def add_part_def Let_def node_id_of_def
      howto_node_def itemlist_node_def get_def)

lemma has_part_build_parts_cases:
  "has_part (build_parts m ast) =
     (if find_install_cmds ast \<noteq> [] then [html_url m @ ''#howto-install''] else []) @
     (if list_after_heading ast [''feature'', ''key feature''] \<noteq> []
      then [html_url m @ ''#features''] else []) @
     (if list_after_heading ast [''supported platform'', ''compatibility''] \<noteq> []
      then [html_url m @ ''#supported-platforms''] else [])"
  by (simp add: build_parts_def add_part_def Let_def)

lemma nodes_with_id_Cons:
  "nodes_with_id (n # g) i =
     (if get n ''@id'' JNull = Inr (JStr i) then n # nodes_with_id g i else nodes_with_id g i)"
  by (simp add: nodes_with_id_def)

lemma id_root_node [simp]: "get (root_node m ast ps) ''@id'' JNull = Inr (JStr (html_url m))"
  by (simp add: root_node_def get_def)

lemma id_howto_node [simp]:
  "get (howto_node m cmds) ''@id'' JNull = Inr (JStr (html_url m @ ''#howto-install''))"
  by (simp add: howto_node_def get_def)

lemma id_itemlist_node [simp]: "get (itemlist_node i t xs) ''@id'' JNull = Inr (JStr i)"
  by (simp add: itemlist_node_def get_def)

lemma resolve_parts:
  "map (nodes_with_id (root_node m ast ps # auxiliary_nodes m ast)) (has_part (build_parts m ast)) =
     map (\<lambda>n. [n]) (auxiliary_nodes m ast)"
  by (simp add: has_part_build_parts_cases auxiliary_nodes_def nodes_with_id_Cons
      nodes_with_id_def)

lemma no_has_part_below:
  "filter (\<lambda>n. has_key n ''hasPart'') (auxiliary_nodes m ast) = []"
  by (simp add: auxiliary_nodes_def has_key_def howto_node_def itemlist_node_def)

text \<open>
  C4. The graph that \<open>build_jsonld\<close> emits starts with the Project node, followed by the
  auxiliary nodes in the order of their creation. The \<open>hasPart\<close> list of the Project node
  holds the identifiers of the auxiliary nodes in that order, each identifier resolves to
  exactly one node of the graph, its auxiliary node, and no auxiliary node has a \<open>hasPart\<close>
  entry.
\<close>

theorem build_jsonld_graph:
  fixes m :: meta and ast :: syntax_tree and now :: string
  defines "project \<equiv> root_node m ast (has_part (build_parts m ast))"
  shows "graph_nodes (build_jsonld m ast now) = Inr (JArr (project # auxiliary_nodes m ast)) \<and>
    project_node (build_jsonld m ast now) = Inr project \<and>
    get project ''hasPart'' JNull = Inr (JArr (map JStr (has_part (build_parts m ast)))) \<and>
    map JStr (has_part (build_parts m ast)) = map node_id_of (auxiliary_nodes m ast) \<and>
    map (nodes_with_id (project # auxiliary_nodes m ast)) (has_part (build_parts m ast)) =
      map (\<lambda>n. [n]) (auxiliary_nodes m ast) \<and>
    filter (\<lambda>n. has_key n ''hasPart'') (auxiliary_nodes m ast) = []"
proof -
  have "get project ''hasPart'' JNull = Inr (JArr (map JStr (has_part (build_parts m ast))))"
    by (simp add: project_def root_node_def get_def)
  then show ?thesis
    unfolding project_def
    by (simp only: graph_nodes_build appended_build_parts project_node_build
        has_part_build_parts resolve_parts no_has_part_below simp_thms)
qed

section \<open>Properties of the intent classifier\<close>

lemma lower_append: "lower (s @ t) = lower s @ lower t"
  by (simp add: lower_def)

lemma contains_prefix: "prefix sub s \<Longrightarrow> contains sub s"
  by (cases s) simp_all

lemma contains_append_self: "contains k (s @ k)"
  by (induction s) (simp_all add: contains_prefix)

lemma triggers_lower:
  "(intent, triggers) \<in> set INTENT_KEYWORDS \<Longrightarrow> k \<in> set triggers \<Longrightarrow> lower k = k"
  by (auto simp: INTENT_KEYWORDS_def lower_def lower_char_def)

lemma guess_intents_hit:
  assumes "(intent, triggers) \<in> set INTENT_KEYWORDS" and "k \<in> set triggers"
    and "contains k (lower query)"
  shows "intent \<in> set (guess_intents query)"
proof -
  let ?hits = "map fst (filter (\<lambda>(intent, keys). \<exists>k \<in> set keys. contains k (lower query))
                  INTENT_KEYWORDS)"
  from assms have "intent \<in> set ?hits" by force
  moreover from this have "?hits \<noteq> []" by (metis empty_iff empty_set)
  ultimately show ?thesis by (simp add: guess_intents_def Let_def)
qed

text \<open>
  C8. When an intent is active on a question, it is still active on the question with any of
  its triggers appended.
\<close>

theorem guess_intents_trigger_appended:
  assumes "intent \<in> set (guess_intents question)"
    and "(intent, triggers) \<in> set INTENT_KEYWORDS"
    and "trigger \<in> set triggers"
  shows "intent \<in> set (guess_intents (question @ trigger))"
proof -
  have "lower (question @ trigger) = lower question @ trigger"
    using assms(2,3) by (simp add: lower_append triggers_lower)
  then have "contains trigger (lower (question @ trigger))"
    by (simp add: contains_append_self)
  with assms(2,3) show ?thesis by (rule guess_intents_hit)
qed

theorem guess_intents_trigger_appended_witness:
  "''install'' \<in> set (guess_intents ''How do I install this?'') \<and>
   ''install'' \<in> set (guess_intents (''How do I install this?'' @ ''setup''))"
proof -
  have active: "''install'' \<in> set (guess_intents ''How do I install this?'')"
    by code_simp
  have entry: "(''install'', [''install'', ''installation'', ''setup'', ''pip'', ''how to install''])
      \<in> set INTENT_KEYWORDS"
    by (simp add: INTENT_KEYWORDS_def)
  have trigger: "''setup'' \<in> set [''install'', ''installation'', ''setup'', ''pip'', ''how to install'']"
    by simp
  from guess_intents_trigger_appended [OF active entry trigger] active show ?thesis by simp
qed

section \<open>Properties of the scorer\<close>

lemma fold_count_tokens:
  "fold (\<lambda>t tf. tf(t := tf t + 1)) ts tf q = tf q + int (count_list ts q)"
  by (induction ts arbitrary: tf) auto

lemma count_tokens_count_list: "count_tokens ts q = int (count_list ts q)"
  by (simp add: count_tokens_def fold_count_tokens)

lemma score_chunk_text: "score_chunk question (JStr text) = Inr (term_overlap question text)"
proof -
  have "count_tokens ts = (\<lambda>q. int (count_list ts q))" for ts
    by (rule ext) (rule count_tokens_count_list)
  moreover have "(\<Sum>q\<leftarrow>qs. (0::int)) = 0" for qs :: "string list"
    by (induction qs) auto
  ultimately show ?thesis
    by (cases "text = []") (simp_all add: score_chunk_def truthy_def term_overlap_def tokenize_def
        Spec2Isabelle.split_def comp_def)
qed

lemma fold_weight:
  "fold (\<lambda>intent weight. weight + f intent) intents w = w + (\<Sum>i\<leftarrow>intents. f i)"
  for w :: int
  by (induction intents arbitrary: w) auto

lemma intent_weight_configured: "intent_weight intent label = configured_weight intent label"
  by (simp add: intent_weight_def configured_weight_def configured_def)

lemma chunk_weight_sum:
  "chunk_weight intents label = 1 + (\<Sum>i\<leftarrow>intents. configured_weight i label)"
  by (simp add: chunk_weight_def fold_weight intent_weight_configured)

lemma configured_keys:
  "(configured intent \<noteq> []) = (intent \<in> set (map fst INTENT_FIELD_WEIGHTS))"
  by (simp add: configured_def INTENT_FIELD_WEIGHTS_def)

lemma any_configured:
  "(\<exists>i \<in> set (map fst INTENT_FIELD_WEIGHTS). i \<in> set intents) =
   (\<exists>i \<in> set intents. configured i \<noteq> [])"
  unfolding configured_keys by blast

lemma term_overlap_nonneg: "0 \<le> term_overlap question text"
  unfolding term_overlap_def by (rule sum_list_nonneg) auto

text \<open>
  C1. The base score of a text is its term overlap with the question. The weight of a field
  is 1 plus the sum, over the active intents, of the weight the intent configures for the
  label of the field, 0 where it configures none. The combined score is the base times the
  weight when the base is positive; when the base is 0 it is the weight alone if some active
  intent has a configured weight entry, and 0 otherwise.
\<close>

theorem chunk_total_formula:
  "score_chunk question (JStr text) = Inr (term_overlap question text) \<and>
   chunk_weight intents label = 1 + (\<Sum>i\<leftarrow>intents. configured_weight i label) \<and>
   chunk_total intents label (term_overlap question text) =
     (if term_overlap question text > 0
      then term_overlap question text * chunk_weight intents label
      else if \<exists>i \<in> set intents. configured i \<noteq> [] then chunk_weight intents label
      else 0)"
proof -
  have "term_overlap question text = 0" if "\<not> term_overlap question text > 0"
    using that term_overlap_nonneg [of question "text"] by simp
  then have "chunk_total intents label (term_overlap question text) =
     (if term_overlap question text > 0
      then term_overlap question text * chunk_weight intents label
      else if \<exists>i \<in> set intents. configured i \<noteq> [] then chunk_weight intents label
      else 0)"
    unfolding chunk_total_def Let_def any_configured by simp
  then show ?thesis
    using score_chunk_text chunk_weight_sum by blast
qed

lemma guess_intents_nonempty: "guess_intents question \<noteq> []"
  by (simp add: guess_intents_def Let_def)

lemma guess_intents_keys: "set (guess_intents question) \<subseteq> set (map fst INTENT_FIELD_WEIGHTS)"
proof -
  have keys: "map fst INTENT_KEYWORDS = map fst INTENT_FIELD_WEIGHTS"
    by (simp add: INTENT_KEYWORDS_def INTENT_FIELD_WEIGHTS_def)
  have "set (map fst (filter P INTENT_KEYWORDS)) \<subseteq> set (map fst INTENT_KEYWORDS)" for P
    by auto
  moreover have "''purpose'' \<in> set (map fst INTENT_FIELD_WEIGHTS)"
    by (simp add: INTENT_FIELD_WEIGHTS_def)
  ultimately show ?thesis
    unfolding guess_intents_def Let_def keys by (simp del: set_map)
qed

lemma guess_intents_configured:
  "\<exists>i \<in> set (map fst INTENT_FIELD_WEIGHTS). i \<in> set (guess_intents question)"
proof -
  obtain i where "i \<in> set (guess_intents question)"
    using guess_intents_nonempty [of question] by (cases "guess_intents question") auto
  with guess_intents_keys [of question] show ?thesis by blast
qed

lemma configured_weight_nonneg: "0 \<le> configured_weight intent label"
  by (simp add: configured_weight_def configured_def INTENT_FIELD_WEIGHTS_def)

lemma chunk_weight_pos: "1 \<le> chunk_weight intents label"
proof -
  have "0 \<le> (\<Sum>i\<leftarrow>intents. configured_weight i label)"
    by (rule sum_list_nonneg) (auto simp: configured_weight_nonneg)
  then show ?thesis by (simp add: chunk_weight_sum)
qed

lemma chunk_total_pos:
  assumes "0 \<le> base"
  shows "1 \<le> chunk_total (guess_intents question) label base"
proof (cases "0 < base")
  case True
  then have "1 * 1 \<le> base * chunk_weight (guess_intents question) label"
    by (intro mult_mono) (use chunk_weight_pos in auto)
  with True show ?thesis by (simp add: chunk_total_def Let_def)
next
  case False
  with guess_intents_configured [of question] chunk_weight_pos show ?thesis
    by (simp add: chunk_total_def Let_def)
qed

lemma score_chunk_nonneg:
  assumes "score_chunk question v = Inr base"
  shows "0 \<le> base"
proof (cases v)
  case (JStr s)
  with assms term_overlap_nonneg [of question s] show ?thesis
    by (simp add: score_chunk_text)
qed (use assms in \<open>auto simp: score_chunk_def truthy_def split: if_splits\<close>)

section \<open>Properties of the retriever\<close>

lemma pick_best_keeps:
  assumes "pick_best question intents chunks b = Inr b'"
    and "\<exists>l v. best_label b = Some l \<and> best_content b = Some v \<and> (l, v) \<in> C"
    and "set chunks \<subseteq> C"
  shows "\<exists>l v. best_label b' = Some l \<and> best_content b' = Some v \<and> (l, v) \<in> C"
  using assms
proof (induction chunks arbitrary: b)
  case Nil
  then show ?case by simp
next
  case (Cons c chunks)
  obtain label v where c: "c = (label, v)" by (cases c)
  from Cons.prems(1) c obtain base where base: "score_chunk question v = Inr base"
    by (cases "score_chunk question v") (auto simp: bind_err_def)
  let ?b1 = "if chunk_total intents label base > best_score b
             then \<lparr>best_label = Some label, best_content = Some v,
                    best_score = chunk_total intents label base\<rparr>
             else b"
  from Cons.prems(1) c base have run: "pick_best question intents chunks ?b1 = Inr b'"
    by (simp add: bind_err_def Let_def)
  have "\<exists>l v. best_label ?b1 = Some l \<and> best_content ?b1 = Some v \<and> (l, v) \<in> C"
    using Cons.prems(2,3) c by auto
  moreover have "set chunks \<subseteq> C" using Cons.prems(3) by simp
  ultimately show ?case using Cons.IH [OF run] by blast
qed

lemma pick_best_chosen:
  assumes "pick_best question (guess_intents question) chunks
             \<lparr>best_label = None, best_content = None, best_score = - 1\<rparr> = Inr b'"
    and "chunks \<noteq> []"
  shows "\<exists>l v. best_label b' = Some l \<and> best_content b' = Some v \<and> (l, v) \<in> set chunks"
proof -
  from assms(2) obtain label v rest where chunks: "chunks = (label, v) # rest"
    by (cases chunks) auto
  from assms(1) chunks obtain base where base: "score_chunk question v = Inr base"
    by (cases "score_chunk question v") (auto simp: bind_err_def)
  then have "1 \<le> chunk_total (guess_intents question) label base"
    by (intro chunk_total_pos score_chunk_nonneg)
  with assms(1) chunks base
  have run: "pick_best question (guess_intents question) rest
      \<lparr>best_label = Some label, best_content = Some v,
       best_score = chunk_total (guess_intents question) label base\<rparr> = Inr b'"
    by (simp add: bind_err_def Let_def)
  show ?thesis
    by (rule pick_best_keeps [OF run]) (auto simp: chunks)
qed

lemma pick_best_returns:
  assumes "list_all (\<lambda>(label, v). is_text v) chunks"
  shows "\<exists>b'. pick_best question intents chunks b = Inr b'"
  using assms
proof (induction chunks arbitrary: b)
  case Nil
  then show ?case by simp
next
  case (Cons c chunks)
  obtain label v where c: "c = (label, v)" by (cases c)
  with Cons.prems obtain s where "v = JStr s"
    by (cases v) (auto simp: is_text_def)
  with c Cons show ?case
    by (simp add: score_chunk_text bind_err_def Let_def)
qed

lemma chunks_from_labels:
  "chunks_from registry doc = Inr chunks \<Longrightarrow> fst ` set chunks \<subseteq> fst ` set registry"
proof (induction registry arbitrary: chunks)
  case Nil
  then show ?case by simp
next
  case (Cons f registry)
  obtain label getter where f: "f = (label, getter)" by (cases f)
  from Cons.prems f obtain v rest where
    "chunks_from registry doc = Inr rest" "chunks = (if truthy v then (label, v) # rest else rest)"
    by (cases "getter doc"; cases "chunks_from registry doc") (auto simp: bind_err_def)
  with Cons.IH [of rest] f show ?case by auto
qed

lemma FIELDS_labels: "l \<in> fst ` set FIELDS \<Longrightarrow> l \<noteq> []"
  by (auto simp: FIELDS_def)

lemma format_answer_not_NoRelevant:
  "bind_err r (format_answer label) \<noteq> Inr NoRelevant"
  by (cases r) (auto simp: bind_err_def format_answer_def split: json.splits)

lemma no_relevant_unreachable: "answer_doc question doc \<noteq> Inr NoRelevant"
proof (cases "chunks_from FIELDS doc")
  case (Inl e)
  then show ?thesis by (simp add: answer_doc_def bind_err_def)
next
  case (Inr chunks)
  show ?thesis
  proof (cases "chunks = []")
    case True
    with Inr show ?thesis by (simp add: answer_doc_def bind_err_def)
  next
    case False
    show ?thesis
    proof (cases "pick_best question (guess_intents question) chunks
             \<lparr>best_label = None, best_content = None, best_score = - 1\<rparr>")
      case (Inl e)
      with Inr False show ?thesis by (simp add: answer_doc_def bind_err_def)
    next
      case picked: (Inr b')
      from pick_best_chosen [OF picked False] obtain l v where
        b': "best_label b' = Some l" "best_content b' = Some v" "(l, v) \<in> set chunks"
        by blast
      then have "l \<in> fst ` set chunks" by force
      with chunks_from_labels [OF Inr] have "l \<in> fst ` set FIELDS" by blast
      then have "l \<noteq> []" by (rule FIELDS_labels)
      with Inr False picked b' have "answer_doc question doc =
          bind_err (if l \<in> set list_like then first_block v else Inr v) (format_answer l)"
        by (simp add: answer_doc_def bind_err_def Let_def)
      then show ?thesis by (simp only: format_answer_not_NoRelevant not_False_eq_True)
    qed
  qed
qed

text \<open>
  C9. Against a graph whose only field that is not empty is \<open>install:commands\<close> with the text
  \<open>pip install foo\<close>, the question \<open>How do I install this?\<close> is answered with the label
  \<open>install:commands\<close> and exactly the text \<open>pip install foo\<close>.
\<close>

theorem install_question_answer:
  assumes "chunks_from FIELDS doc = Inr [(''install:commands'', JStr ''pip install foo'')]"
  shows "answer_doc ''How do I install this?'' doc =
           Inr (Answer ''install:commands'' ''pip install foo'')"
proof -
  have picked: "pick_best ''How do I install this?'' (guess_intents ''How do I install this?'')
      [(''install:commands'', JStr ''pip install foo'')]
      \<lparr>best_label = None, best_content = None, best_score = - 1\<rparr> =
    Inr \<lparr>best_label = Some ''install:commands'',
         best_content = Some (JStr ''pip install foo''), best_score = 4\<rparr>"
    by code_simp
  have printed: "bind_err (first_block (JStr ''pip install foo''))
      (format_answer ''install:commands'') =
    Inr (Answer ''install:commands'' ''pip install foo'')"
    by code_simp
  have "''install:commands'' \<in> set list_like"
    by (simp add: list_like_def)
  with assms picked printed show ?thesis
    by (simp add: answer_doc_def Let_def bind_err_def)
qed

theorem install_question_answer_witness:
  "chunks_from FIELDS
     (JObj [(''@graph'',
        JArr [JObj [(''@id'', JStr ''https://x/Foo''), (''@type'', JStr ''SoftwareApplication''),
                    (''hasPart'', JArr [JStr ''https://x/Foo#howto-install''])],
              JObj [(''@id'', JStr ''https://x/Foo#howto-install''), (''@type'', JStr ''HowTo''),
                    (''tool'', JArr [JStr ''pip install foo''])]])]) =
     Inr [(''install:commands'', JStr ''pip install foo'')] \<and>
   answer_doc ''How do I install this?''
     (JObj [(''@graph'',
        JArr [JObj [(''@id'', JStr ''https://x/Foo''), (''@type'', JStr ''SoftwareApplication''),
                    (''hasPart'', JArr [JStr ''https://x/Foo#howto-install''])],
              JObj [(''@id'', JStr ''https://x/Foo#howto-install''), (''@type'', JStr ''HowTo''),
                    (''tool'', JArr [JStr ''pip install foo''])]])]) =
     Inr (Answer ''install:commands'' ''pip install foo'')"
proof -
  have chunks: "chunks_from FIELDS
     (JObj [(''@graph'',
        JArr [JObj [(''@id'', JStr ''https://x/Foo''), (''@type'', JStr ''SoftwareApplication''),
                    (''hasPart'', JArr [JStr ''https://x/Foo#howto-install''])],
              JObj [(''@id'', JStr ''https://x/Foo#howto-install''), (''@type'', JStr ''HowTo''),
                    (''tool'', JArr [JStr ''pip install foo''])]])]) =
     Inr [(''install:commands'', JStr ''pip install foo'')]"
    by code_simp
  from chunks install_question_answer [OF chunks] show ?thesis
    by (rule conjI)
qed

section \<open>Properties of the saved text\<close>

lemma hex_value_hex_char: "d < 16 \<Longrightarrow> hex_value (hex_char d) = Some d"
  by (auto simp: hex_value_def hex_char_def Let_def)

lemma unicode_escape_control:
  assumes "(of_char c :: nat) < 32"
  shows "unicode_escape (CHR ''0'') (CHR ''0'') (hex_char (of_char c div 16))
           (hex_char (of_char c mod 16)) = Some c"
proof -
  have zero: "hex_value (CHR ''0'') = Some 0"
    by (simp add: hex_value_def)
  have "hex_value (hex_char (of_char c div 16)) = Some (of_char c div 16)"
    using assms by (intro hex_value_hex_char) simp
  moreover have "hex_value (hex_char (of_char c mod 16)) = Some (of_char c mod 16)"
    by (intro hex_value_hex_char) simp
  ultimately show ?thesis
    by (simp add: unicode_escape_def zero)
qed

lemma scan_string_escape_char:
  "scan_string acc (escape_char c @ t) = scan_string (c # acc) t"
proof (cases "(of_char c :: nat) < 32")
  case True
  from unicode_escape_control [OF True] True show ?thesis
    by (auto simp: escape_char_def unescape_def)
next
  case False
  then show ?thesis
    by (auto simp: escape_char_def unescape_def)
qed

lemma scan_string_escaped:
  "scan_string acc (concat (map escape_char s) @ CHR 0x22 # rest) = Some (rev acc @ s, rest)"
  by (induction s arbitrary: acc) (simp_all add: scan_string_escape_char)

lemma scan_string_encode_str:
  "encode_str s @ rest = CHR 0x22 # concat (map escape_char s) @ CHR 0x22 # rest"
  by (simp add: encode_str_def)

declare str_nat.simps [simp del]

lemma is_digit_digit_char: "d < 10 \<Longrightarrow> is_digit (digit_char d)"
  by (simp add: is_digit_def digit_char_def)

lemma digit_char_value: "d < 10 \<Longrightarrow> (of_char (digit_char d) :: nat) - 48 = d"
  by (simp add: digit_char_def)

lemma digit_char_zero:
  assumes "d < 10"
  shows "(digit_char d = CHR ''0'') = (d = 0)"
proof -
  have "(of_char (digit_char d) :: nat) = 48 + d"
    using assms by (simp add: digit_char_def)
  moreover have "(of_char (CHR ''0'') :: nat) = 48" by simp
  ultimately have "((of_char (digit_char d) :: nat) = of_char (CHR ''0'')) = (d = 0)"
    by simp
  then show ?thesis by (simp only: of_char_eq_iff)
qed

lemma str_nat_digits: "list_all is_digit (str_nat n)"
proof (induction n rule: str_nat.induct)
  case (1 n)
  then show ?case
    by (subst str_nat.simps) (auto simp: is_digit_digit_char)
qed

lemma str_nat_nonempty: "str_nat n \<noteq> []"
  by (subst str_nat.simps) simp

lemma str_nat_hd: "0 < n \<Longrightarrow> hd (str_nat n) \<noteq> CHR ''0''"
proof (induction n rule: str_nat.induct)
  case (1 n)
  show ?case
  proof (cases "n < 10")
    case True
    with 1(2) show ?thesis
      by (subst str_nat.simps) (simp add: digit_char_zero)
  next
    case False
    then have "0 < n div 10" by simp
    with 1(1) False have "hd (str_nat (n div 10)) \<noteq> CHR ''0''" by simp
    with False show ?thesis
      by (subst str_nat.simps) (simp add: str_nat_nonempty)
  qed
qed

lemma str_nat_length: "1 < length (str_nat n) \<Longrightarrow> 0 < n"
  by (subst (asm) str_nat.simps) (auto split: if_splits)

lemma nat_of_digits_snoc:
  "nat_of_digits (ds @ [c]) = 10 * nat_of_digits ds + (of_char c - 48)"
  by (simp add: nat_of_digits_def)

lemma nat_of_digits_str_nat: "nat_of_digits (str_nat n) = n"
proof (induction n rule: str_nat.induct)
  case (1 n)
  show ?case
  proof (cases "n < 10")
    case True
    then show ?thesis
      by (subst str_nat.simps) (simp add: nat_of_digits_def digit_char_value)
  next
    case False
    with 1 show ?thesis
      by (subst str_nat.simps) (simp add: nat_of_digits_snoc digit_char_value)
  qed
qed

lemma delimited_no_digit: "delimited rest \<Longrightarrow> takeWhile is_digit rest = []"
  by (cases rest) (auto simp: delimited_def is_digit_def)

lemma scan_nat_str_nat:
  assumes "delimited rest"
  shows "scan_nat (str_nat n @ rest) = Some (n, rest)"
proof -
  have all: "\<And>x. x \<in> set (str_nat n) \<Longrightarrow> is_digit x"
    using str_nat_digits [of n] by (simp add: list_all_iff)
  have taken: "takeWhile is_digit (str_nat n @ rest) = str_nat n"
    using all by (simp add: takeWhile_append2 delimited_no_digit [OF assms])
  have dropped: "dropWhile is_digit (str_nat n @ rest) = rest"
    using all delimited_no_digit [OF assms]
    by (simp add: dropWhile_append2) (metis takeWhile_dropWhile_id append_Nil)
  have lead: "\<not> (hd (str_nat n) = CHR ''0'' \<and> 1 < length (str_nat n))"
    using str_nat_hd [of n] str_nat_length [of n] by blast
  have lead': "(hd (str_nat n) = CHR ''0'' \<and> 1 < length (str_nat n)) = False"
    using lead by simp
  have "scan_nat (str_nat n @ rest) =
      (case rest of
         c # _ \<Rightarrow> if c = CHR ''.'' \<or> c = CHR ''e'' \<or> c = CHR ''E'' then None
                  else Some (nat_of_digits (str_nat n), rest)
       | [] \<Rightarrow> Some (nat_of_digits (str_nat n), rest))"
    unfolding scan_nat_def Let_def taken dropped
    by (simp only: lead' str_nat_nonempty if_False)
  also have "\<dots> = Some (n, rest)"
    using assms by (cases rest) (auto simp: delimited_def nat_of_digits_str_nat)
  finally show ?thesis .
qed

lemma str_nat_Cons: "\<exists>c t. str_nat n = c # t \<and> is_digit c"
  using str_nat_nonempty [of n] str_nat_digits [of n] by (cases "str_nat n") auto

lemma scan_number_str_int:
  assumes "delimited rest"
  shows "scan_number (str_int i @ rest) = Some (JInt i, rest)"
proof (cases "i < 0")
  case True
  with scan_nat_str_nat [OF assms] show ?thesis
    by (simp add: scan_number_def str_int_def)
next
  case False
  obtain c t where ct: "str_nat (nat i) = c # t" "is_digit c"
    using str_nat_Cons by blast
  then have "c \<noteq> CHR ''-''" by (auto simp: is_digit_def)
  with False ct scan_nat_str_nat [OF assms, of "nat i"] show ?thesis
    by (simp add: scan_number_def str_int_def)
qed

lemma skip_ws_start: "\<not> is_ws c \<Longrightarrow> skip_ws (c # t) = c # t"
  by (simp add: skip_ws_def)

lemma skip_ws_newline_indent: "\<not> is_ws c \<Longrightarrow> skip_ws (newline_indent l @ c # t) = c # t"
proof -
  have "\<And>x. x \<in> set (newline_indent l) \<Longrightarrow> is_ws x"
    by (auto simp: newline_indent_def is_ws_def)
  then show "\<not> is_ws c \<Longrightarrow> skip_ws (newline_indent l @ c # t) = c # t"
    by (simp add: skip_ws_def dropWhile_append2)
qed

lemma skip_ws_space: "\<not> is_ws c \<Longrightarrow> skip_ws (CHR 0x20 # c # t) = c # t"
  by (simp add: skip_ws_def is_ws_def)

lemma delimited_newline_indent: "delimited (newline_indent l @ t)"
  by (simp add: delimited_def newline_indent_def)

lemma delimited_comma: "delimited (CHR '','' # t)"
  by (simp add: delimited_def)

lemma dumps_start:
  "\<exists>c t. dumps lvl v = c # t \<and> \<not> is_ws c \<and> c \<noteq> CHR '']''"
proof (cases v)
  case (JInt i)
  obtain c t where "str_nat (nat i) = c # t" "is_digit c"
    using str_nat_Cons by blast
  moreover obtain c' t' where "str_nat (nat (- i)) = c' # t'" "is_digit c'"
    using str_nat_Cons by blast
  ultimately show ?thesis
    using JInt by (auto simp: str_int_def is_ws_def is_digit_def)
qed (auto simp: is_ws_def encode_str_def)

lemma parse_value_null: "parse_value (Suc n) (''null'' @ rest) = Some (JNull, rest)"
  by simp

lemma parse_value_bool:
  "parse_value (Suc n) ((if b then ''true'' else ''false'') @ rest) = Some (JBool b, rest)"
  by simp

lemma parse_value_string: "parse_value (Suc n) (encode_str s @ rest) = Some (JStr s, rest)"
  by (simp add: encode_str_def scan_string_escaped)

lemma str_int_start:
  "\<exists>c t. str_int i = c # t \<and> (c = CHR ''-'' \<or> is_digit c)"
  using str_nat_Cons [of "nat i"] by (auto simp: str_int_def)

lemma parse_value_int:
  assumes "delimited rest"
  shows "parse_value (Suc n) (str_int i @ rest) = Some (JInt i, rest)"
proof -
  obtain c t where ct: "str_int i = c # t" "c = CHR ''-'' \<or> is_digit c"
    using str_int_start by blast
  then have "c \<noteq> CHR 0x22" "c \<noteq> CHR ''{''" "c \<noteq> CHR ''[''" "c \<noteq> CHR ''n''"
    "c \<noteq> CHR ''t''" "c \<noteq> CHR ''f''"
    by (auto simp: is_digit_def)
  then have "parse_value (Suc n) (c # t @ rest) = scan_number (c # t @ rest)"
    by simp
  with ct(1) scan_number_str_int [OF assms, of i] show ?thesis by simp
qed

lemma join_start:
  assumes "ys \<noteq> []" and "\<And>y. y \<in> set ys \<Longrightarrow> \<exists>c t. y = c # t \<and> P c"
  shows "\<exists>c t. join sep ys = c # t \<and> P c"
proof (cases ys)
  case Nil
  with assms(1) show ?thesis by simp
next
  case (Cons y ys')
  with assms(2) [of y] obtain c t where "y = c # t" "P c" by auto
  with Cons show ?thesis by (cases ys') auto
qed

lemma parse_elems_dumps:
  assumes "xs \<noteq> []"
    and "\<And>x n rest. x \<in> set xs \<Longrightarrow> calls_of x \<le> n \<Longrightarrow> delimited rest \<Longrightarrow>
           parse_value n (dumps (Suc l) x @ rest) = Some (x, rest)"
    and "(\<Sum>x\<leftarrow>xs. Suc (calls_of x)) \<le> n"
  shows "parse_elems n acc
           (join (CHR '','' # newline_indent (Suc l)) (map (dumps (Suc l)) xs) @
            newline_indent l @ CHR '']'' # rest) =
         Some (JArr (rev acc @ xs), rest)"
  using assms
proof (induction xs arbitrary: n acc rule: list_nonempty_induct)
  case (single x)
  from single(2) obtain m where n: "n = Suc m" "calls_of x \<le> m"
    by (cases n) auto
  have "parse_value m (dumps (Suc l) x @ newline_indent l @ CHR '']'' # rest) =
      Some (x, newline_indent l @ CHR '']'' # rest)"
    by (rule single(1)) (simp_all add: n delimited_newline_indent)
  moreover have "skip_ws (newline_indent l @ CHR '']'' # rest) = CHR '']'' # rest"
    by (rule skip_ws_newline_indent) (simp add: is_ws_def)
  ultimately show ?case by (simp add: n)
next
  case (cons x xs)
  from cons(4) obtain m where n: "n = Suc m" "calls_of x \<le> m"
    "(\<Sum>x\<leftarrow>xs. Suc (calls_of x)) \<le> m"
    by (cases n) auto
  let ?tail = "join (CHR '','' # newline_indent (Suc l)) (map (dumps (Suc l)) xs) @
            newline_indent l @ CHR '']'' # rest"
  obtain y ys where xs: "xs = y # ys" using cons(1) by (cases xs) auto
  have shape: "join (CHR '','' # newline_indent (Suc l)) (map (dumps (Suc l)) (x # xs)) @
            newline_indent l @ CHR '']'' # rest =
      dumps (Suc l) x @ CHR '','' # newline_indent (Suc l) @ ?tail"
    by (simp add: xs)
  have first: "parse_value m (dumps (Suc l) x @ CHR '','' # newline_indent (Suc l) @ ?tail) =
      Some (x, CHR '','' # newline_indent (Suc l) @ ?tail)"
    by (rule cons(3)) (simp_all add: n delimited_comma)
  obtain c t where start: "?tail = c # t" "\<not> is_ws c"
  proof -
    have "\<exists>c t. join (CHR '','' # newline_indent (Suc l)) (map (dumps (Suc l)) xs) = c # t \<and>
        (\<not> is_ws c \<and> c \<noteq> CHR '']'')"
      by (rule join_start) (use cons(1) dumps_start in auto)
    then show ?thesis using that by auto
  qed
  have skip: "skip_ws (newline_indent (Suc l) @ ?tail) = ?tail"
    unfolding start(1) by (rule skip_ws_newline_indent) (rule start(2))
  have rest: "parse_elems m (x # acc) ?tail = Some (JArr (rev (x # acc) @ xs), rest)"
    by (rule cons(2)) (use cons(3) n in auto)
  have comma: "skip_ws (CHR '','' # newline_indent (Suc l) @ ?tail) =
      CHR '','' # newline_indent (Suc l) @ ?tail"
    by (rule skip_ws_start) (simp add: is_ws_def)
  show ?case
    unfolding shape n(1) parse_elems.simps first
    by (simp only: comma skip rest option.case prod.case list.case) simp
qed

lemma member_shape:
  "(encode_str k @ '': '' @ dumps lvl v) @ t =
     CHR 0x22 # concat (map escape_char k) @ CHR 0x22 # CHR '':'' # CHR 0x20 # dumps lvl v @ t"
  by (simp add: encode_str_def)

lemma parse_member:
  assumes "parse_value m (dumps lvl v @ t) = Some (v, t)"
  shows "parse_members (Suc m) acc
           (CHR 0x22 # concat (map escape_char k) @ CHR 0x22 # CHR '':'' # CHR 0x20 #
            dumps lvl v @ t) =
         (case skip_ws t of
            [] \<Rightarrow> None
          | d # s3 \<Rightarrow>
              if d = CHR ''}'' then Some (JObj (dict_of_pairs (rev ((k, v) # acc))), s3)
              else if d = CHR '','' then parse_members m ((k, v) # acc) (skip_ws s3)
              else None)"
proof -
  obtain c u where start: "dumps lvl v = c # u" "\<not> is_ws c"
    using dumps_start [of lvl v] by blast
  have colon: "skip_ws (CHR '':'' # CHR 0x20 # dumps lvl v @ t) =
      CHR '':'' # CHR 0x20 # dumps lvl v @ t"
    by (rule skip_ws_start) (simp add: is_ws_def)
  have space: "skip_ws (CHR 0x20 # dumps lvl v @ t) = dumps lvl v @ t"
    using skip_ws_space [OF start(2), of "u @ t"] by (simp add: start(1))
  show ?thesis
    unfolding parse_members.simps
    by (simp only: list.case scan_string_escaped [of "[]", simplified] colon space assms
        option.case prod.case) simp
qed

lemma parse_members_dumps:
  assumes "kvs \<noteq> []"
    and "\<And>k v n rest. (k, v) \<in> set kvs \<Longrightarrow> calls_of v \<le> n \<Longrightarrow> delimited rest \<Longrightarrow>
           parse_value n (dumps (Suc l) v @ rest) = Some (v, rest)"
    and "(\<Sum>kv\<leftarrow>kvs. Suc (calls_of (snd kv))) \<le> n"
  shows "parse_members n acc
           (join (CHR '','' # newline_indent (Suc l))
              (map (\<lambda>kv. encode_str (fst kv) @ '': '' @ dumps (Suc l) (snd kv)) kvs) @
            newline_indent l @ CHR ''}'' # rest) =
         Some (JObj (dict_of_pairs (rev acc @ kvs)), rest)"
  using assms
proof (induction kvs arbitrary: n acc rule: list_nonempty_induct)
  case (single kv)
  obtain k v where kv: "kv = (k, v)" by (cases kv)
  from single(2) kv obtain m where n: "n = Suc m" "calls_of v \<le> m"
    by (cases n) auto
  have "parse_value m (dumps (Suc l) v @ newline_indent l @ CHR ''}'' # rest) =
      Some (v, newline_indent l @ CHR ''}'' # rest)"
    by (rule single(1) [of k]) (simp_all add: kv n delimited_newline_indent)
  note parse_member [OF this, of acc k]
  moreover have "skip_ws (newline_indent l @ CHR ''}'' # rest) = CHR ''}'' # rest"
    by (rule skip_ws_newline_indent) (simp add: is_ws_def)
  ultimately show ?case
    by (simp add: kv n member_shape [of k "Suc l" v, simplified])
next
  case (cons kv kvs)
  obtain k v where kv: "kv = (k, v)" by (cases kv)
  from cons(4) kv obtain m where n: "n = Suc m" "calls_of v \<le> m"
    "(\<Sum>kv\<leftarrow>kvs. Suc (calls_of (snd kv))) \<le> m"
    by (cases n) auto
  let ?tail = "join (CHR '','' # newline_indent (Suc l))
              (map (\<lambda>kv. encode_str (fst kv) @ '': '' @ dumps (Suc l) (snd kv)) kvs) @
            newline_indent l @ CHR ''}'' # rest"
  obtain kv' kvs' where kvs: "kvs = kv' # kvs'" using cons(1) by (cases kvs) auto
  have shape: "join (CHR '','' # newline_indent (Suc l))
              (map (\<lambda>kv. encode_str (fst kv) @ '': '' @ dumps (Suc l) (snd kv)) (kv # kvs)) @
            newline_indent l @ CHR ''}'' # rest =
      CHR 0x22 # concat (map escape_char k) @ CHR 0x22 # CHR '':'' # CHR 0x20 #
        dumps (Suc l) v @ CHR '','' # newline_indent (Suc l) @ ?tail"
    by (simp add: kvs kv encode_str_def)
  have "parse_value m (dumps (Suc l) v @ CHR '','' # newline_indent (Suc l) @ ?tail) =
      Some (v, CHR '','' # newline_indent (Suc l) @ ?tail)"
    by (rule cons(3) [of k]) (simp_all add: kv n delimited_comma)
  note member = parse_member [OF this, of acc k]
  obtain c t where start: "?tail = c # t" "\<not> is_ws c"
  proof -
    have "\<exists>c t. join (CHR '','' # newline_indent (Suc l))
        (map (\<lambda>kv. encode_str (fst kv) @ '': '' @ dumps (Suc l) (snd kv)) kvs) = c # t \<and>
        \<not> is_ws c"
      by (rule join_start) (use cons(1) in \<open>auto simp: encode_str_def is_ws_def\<close>)
    then show ?thesis using that by auto
  qed
  have skip: "skip_ws (newline_indent (Suc l) @ ?tail) = ?tail"
    unfolding start(1) by (rule skip_ws_newline_indent) (rule start(2))
  have others: "parse_members m ((k, v) # acc) ?tail =
      Some (JObj (dict_of_pairs (rev ((k, v) # acc) @ kvs)), rest)"
    by (rule cons(2)) (use cons(3) n in auto)
  have comma: "skip_ws (CHR '','' # newline_indent (Suc l) @ ?tail) =
      CHR '','' # newline_indent (Suc l) @ ?tail"
    by (rule skip_ws_start) (simp add: is_ws_def)
  show ?case
    unfolding shape n(1) member
    by (simp only: comma skip others list.case) (simp add: kv)
qed

lemma dict_set_new: "k \<notin> fst ` set d \<Longrightarrow> dict_set k v d = d @ [(k, v)]"
  by (induction d) auto

lemma fold_dict_set:
  "distinct (map fst (d @ kvs)) \<Longrightarrow> fold (\<lambda>(k, v) d. dict_set k v d) kvs d = d @ kvs"
proof (induction kvs arbitrary: d)
  case Nil
  then show ?case by simp
next
  case (Cons kv kvs)
  obtain k v where kv: "kv = (k, v)" by (cases kv)
  from Cons.prems kv have new: "k \<notin> fst ` set d" by auto
  from Cons.prems kv have "distinct (map fst ((d @ [(k, v)]) @ kvs))" by simp
  from Cons.IH [OF this] new kv show ?case by (simp add: dict_set_new)
qed

lemma dict_of_pairs_distinct: "distinct (map fst kvs) \<Longrightarrow> dict_of_pairs kvs = kvs"
  using fold_dict_set [of "[]" kvs] by (simp add: dict_of_pairs_def)

lemma open_bracket: "parse_value (Suc n) (CHR ''['' # s1) =
      (case skip_ws s1 of
         [] \<Rightarrow> None
       | d # s2 \<Rightarrow> if d = CHR '']'' then Some (JArr [], s2) else parse_elems n [] (d # s2))"
  by simp

lemma open_brace: "parse_value (Suc n) (CHR ''{'' # s1) =
      (case skip_ws s1 of
         [] \<Rightarrow> None
       | d # s2 \<Rightarrow>
           if d = CHR ''}'' then Some (JObj [], s2)
           else if d = CHR 0x22 then parse_members n [] (d # s2)
           else None)"
  by simp

lemma parse_value_array:
  assumes "xs \<noteq> []"
  shows "parse_value (Suc n) (dumps l (JArr xs) @ rest) =
         parse_elems n []
           (join (CHR '','' # newline_indent (Suc l)) (map (dumps (Suc l)) xs) @
            newline_indent l @ CHR '']'' # rest)"
proof -
  let ?items = "join (CHR '','' # newline_indent (Suc l)) (map (dumps (Suc l)) xs) @
            newline_indent l @ CHR '']'' # rest"
  have "\<exists>c t. join (CHR '','' # newline_indent (Suc l)) (map (dumps (Suc l)) xs) = c # t \<and>
      (\<not> is_ws c \<and> c \<noteq> CHR '']'')"
    by (rule join_start) (use assms dumps_start in auto)
  then obtain c t where start: "?items = c # t" "\<not> is_ws c" "c \<noteq> CHR '']''"
    by auto
  have skip: "skip_ws (newline_indent (Suc l) @ ?items) = ?items"
    unfolding start(1) by (rule skip_ws_newline_indent) (rule start(2))
  have shape: "dumps l (JArr xs) @ rest = CHR ''['' # newline_indent (Suc l) @ ?items"
    using assms by simp
  have "parse_value (Suc n) (CHR ''['' # newline_indent (Suc l) @ ?items) =
      (case ?items of
         [] \<Rightarrow> None
       | d # s2 \<Rightarrow> if d = CHR '']'' then Some (JArr [], s2) else parse_elems n [] (d # s2))"
    by (simp only: open_bracket skip)
  also have "\<dots> = parse_elems n [] ?items"
    using start(3) by (simp only: start(1) list.case if_False)
  finally show ?thesis
    by (simp only: shape)
qed

lemma parse_value_object:
  assumes "kvs \<noteq> []"
  shows "parse_value (Suc n) (dumps l (JObj kvs) @ rest) =
         parse_members n []
           (join (CHR '','' # newline_indent (Suc l))
              (map (\<lambda>kv. encode_str (fst kv) @ '': '' @ dumps (Suc l) (snd kv)) kvs) @
            newline_indent l @ CHR ''}'' # rest)"
proof -
  let ?items = "join (CHR '','' # newline_indent (Suc l))
              (map (\<lambda>kv. encode_str (fst kv) @ '': '' @ dumps (Suc l) (snd kv)) kvs) @
            newline_indent l @ CHR ''}'' # rest"
  have "\<exists>c t. join (CHR '','' # newline_indent (Suc l))
        (map (\<lambda>kv. encode_str (fst kv) @ '': '' @ dumps (Suc l) (snd kv)) kvs) = c # t \<and>
        c = CHR 0x22"
    by (rule join_start) (use assms in \<open>auto simp: encode_str_def\<close>)
  then obtain t where start: "?items = CHR 0x22 # t"
    by auto
  have skip: "skip_ws (newline_indent (Suc l) @ ?items) = ?items"
    unfolding start by (rule skip_ws_newline_indent) (simp add: is_ws_def)
  have shape: "dumps l (JObj kvs) @ rest = CHR ''{'' # newline_indent (Suc l) @ ?items"
    using assms by simp
  have "parse_value (Suc n) (CHR ''{'' # newline_indent (Suc l) @ ?items) =
      (case ?items of
         [] \<Rightarrow> None
       | d # s2 \<Rightarrow>
           if d = CHR ''}'' then Some (JObj [], s2)
           else if d = CHR 0x22 then parse_members n [] (d # s2)
           else None)"
    by (simp only: open_brace skip)
  also have "\<dots> = parse_members n [] ?items"
    by (simp only: start list.case) simp
  finally show ?thesis
    by (simp only: shape)
qed

lemma parse_value_dumps:
  assumes "distinct_keys v" and "calls_of v \<le> n" and "delimited rest"
  shows "parse_value n (dumps l v @ rest) = Some (v, rest)"
  using assms
proof (induction v arbitrary: n l rest)
  case JNull
  then obtain m where "n = Suc m" by (cases n) auto
  then show ?case by simp
next
  case (JBool b)
  then obtain m where "n = Suc m" by (cases n) auto
  then show ?case by simp
next
  case (JInt i)
  then obtain m where "n = Suc m" by (cases n) auto
  with JInt parse_value_int show ?case by simp
next
  case (JStr s)
  then obtain m where "n = Suc m" by (cases n) auto
  with parse_value_string show ?case by simp
next
  case (JArr xs)
  from JArr.prems(2) obtain m where n: "n = Suc m" "(\<Sum>x\<leftarrow>xs. Suc (calls_of x)) \<le> m"
    by (cases n) auto
  show ?case
  proof (cases "xs = []")
    case True
    then show ?thesis by (simp add: n skip_ws_def is_ws_def)
  next
    case False
    have "parse_elems m []
           (join (CHR '','' # newline_indent (Suc l)) (map (dumps (Suc l)) xs) @
            newline_indent l @ CHR '']'' # rest) = Some (JArr (rev [] @ xs), rest)"
    proof (rule parse_elems_dumps [OF False _ n(2)])
      fix x k t
      assume "x \<in> set xs" "calls_of x \<le> k" "delimited t"
      with JArr.prems(1) show "parse_value k (dumps (Suc l) x @ t) = Some (x, t)"
        by (intro JArr.IH) (auto simp: list_all_iff)
    qed
    with False show ?thesis
      unfolding n(1) parse_value_array [OF False] by simp
  qed
next
  case (JObj kvs)
  from JObj.prems(2) obtain m where n: "n = Suc m"
    "(\<Sum>kv\<leftarrow>kvs. Suc (calls_of (snd kv))) \<le> m"
    by (cases n) auto
  show ?case
  proof (cases "kvs = []")
    case True
    then show ?thesis by (simp add: n skip_ws_def is_ws_def)
  next
    case False
    have "parse_members m []
           (join (CHR '','' # newline_indent (Suc l))
              (map (\<lambda>kv. encode_str (fst kv) @ '': '' @ dumps (Suc l) (snd kv)) kvs) @
            newline_indent l @ CHR ''}'' # rest) =
         Some (JObj (dict_of_pairs (rev [] @ kvs)), rest)"
    proof (rule parse_members_dumps [OF False _ n(2)])
      fix k x j t
      assume "(k, x) \<in> set kvs" "calls_of x \<le> j" "delimited t"
      with JObj.prems(1) show "parse_value j (dumps (Suc l) x @ t) = Some (x, t)"
        by (intro JObj.IH [of "(k, x)"]) (auto simp: list_all_iff)
    qed
    with JObj.prems(1) show ?thesis
      unfolding n(1) parse_value_object [OF False] by (simp add: dict_of_pairs_distinct)
  qed
qed

lemma join_length:
  assumes "\<And>x. x \<in> set xs \<Longrightarrow> g x \<le> length (f x)" and "sep \<noteq> []"
  shows "(\<Sum>x\<leftarrow>xs. Suc (g x)) \<le> Suc (length (join sep (map f xs)))"
  using assms(1)
proof (induction xs rule: induct_list012)
  case 1
  then show ?case by simp
next
  case (2 x)
  then show ?case by simp
next
  case (3 x y zs)
  have "g x \<le> length (f x)" by (rule 3(3)) simp
  moreover have "(\<Sum>x\<leftarrow>y # zs. Suc (g x)) \<le> Suc (length (join sep (map f (y # zs))))"
    by (rule 3(2)) (simp add: 3(3))
  moreover have "1 \<le> length sep" using assms(2) by (cases sep) auto
  ultimately show ?case by simp
qed

lemma calls_of_length: "calls_of v \<le> length (dumps l v)"
proof (induction v arbitrary: l)
  case (JInt i)
  have "str_nat n \<noteq> []" for n by (rule str_nat_nonempty)
  then have "1 \<le> length (str_nat n)" for n by (cases "str_nat n") auto
  then show ?case by (simp add: str_int_def)
next
  case (JArr xs)
  have "(\<Sum>x\<leftarrow>xs. Suc (calls_of x)) \<le>
      Suc (length (join (CHR '','' # newline_indent (Suc l)) (map (dumps (Suc l)) xs)))"
    by (rule join_length) (simp_all add: JArr.IH)
  then show ?case by (simp add: newline_indent_def)
next
  case (JObj kvs)
  have "(\<Sum>kv\<leftarrow>kvs. Suc (calls_of (snd kv))) \<le>
      Suc (length (join (CHR '','' # newline_indent (Suc l))
        (map (\<lambda>kv. encode_str (fst kv) @ '': '' @ dumps (Suc l) (snd kv)) kvs)))"
  proof (rule join_length)
    fix kv
    assume member: "kv \<in> set kvs"
    have "snd kv \<in> Basic_BNFs.snds kv"
      by (cases kv) simp
    then have "calls_of (snd kv) \<le> length (dumps (Suc l) (snd kv))"
      by (rule JObj.IH [OF member])
    then show "calls_of (snd kv) \<le> length (encode_str (fst kv) @ '': '' @ dumps (Suc l) (snd kv))"
      by simp
  qed simp
  then show ?case by (simp add: newline_indent_def)
qed (simp_all add: encode_str_def)

lemma json_loads_dumps:
  assumes "distinct_keys v"
  shows "json_loads (json_dumps v) = Inr v"
proof -
  obtain c t where start: "dumps 0 v = c # t" "\<not> is_ws c"
    using dumps_start [of 0 v] by blast
  have "skip_ws (dumps 0 v) = dumps 0 v"
    unfolding start(1) by (rule skip_ws_start) (rule start(2))
  moreover have "parse_value (length (dumps 0 v)) (dumps 0 v @ []) = Some (v, [])"
    by (rule parse_value_dumps [OF assms calls_of_length]) (simp add: delimited_def)
  ultimately show ?thesis
    by (simp add: json_loads_def json_dumps_def skip_ws_def)
qed

section \<open>Properties of saving and loading\<close>

lemma distinct_keys_strings: "list_all distinct_keys (map JStr xs)"
  by (induction xs) auto

lemma distinct_keys_list_items: "list_all distinct_keys (list_items xs)"
  by (simp add: list_items_def list_all_iff) auto

lemma distinct_keys_root_node: "distinct_keys (root_node m ast parts)"
  by (simp add: root_node_def str_or_none_def distinct_keys_strings split: option.splits)

lemma distinct_keys_auxiliary_nodes: "list_all distinct_keys (auxiliary_nodes m ast)"
  by (simp add: auxiliary_nodes_def howto_node_def itemlist_node_def distinct_keys_strings
      distinct_keys_list_items)

lemma distinct_keys_build_jsonld: "distinct_keys (build_jsonld m ast now)"
  by (simp add: build_jsonld_def Let_def CONTEXT_def distinct_keys_root_node
      appended_build_parts distinct_keys_auxiliary_nodes)

lemma project_attr_build:
  "project_attr key dflt (build_jsonld m ast now) =
     get (root_node m ast (has_part (build_parts m ast))) key dflt"
  by (simp add: project_attr_def project_node_build bind_err_def)

text \<open>
  C7. The text that the builder saves loads back to the graph that was built: the same
  document with every node, key and value in the same order, \<open>None\<close> where it was \<open>None\<close>. So
  the query reads from the loaded document the name, the description and the \<open>hasPart\<close> list
  that the builder put there, and the Project node followed by the same auxiliary nodes.
\<close>

theorem saved_graph_round_trip:
  fixes m :: meta and ast :: syntax_tree and now :: string
  defines "doc \<equiv> build_jsonld m ast now"
  shows "json_loads (json_dumps doc) = Inr doc \<and>
    bind_err (json_loads (json_dumps doc)) (project_attr ''name'' JNull) = Inr (JStr (name m)) \<and>
    bind_err (json_loads (json_dumps doc)) (project_attr ''description'' JNull) =
      Inr (str_or_none (resolve_description m ast)) \<and>
    bind_err (json_loads (json_dumps doc)) (project_attr ''hasPart'' JNull) =
      Inr (JArr (map JStr (has_part (build_parts m ast)))) \<and>
    bind_err (json_loads (json_dumps doc)) graph_nodes =
      Inr (JArr (root_node m ast (has_part (build_parts m ast)) # auxiliary_nodes m ast)) \<and>
    main json_loads question (Readable (json_dumps doc)) = answer_doc question doc"
proof -
  have loaded: "json_loads (json_dumps doc) = Inr doc"
    unfolding doc_def by (rule json_loads_dumps) (rule distinct_keys_build_jsonld)
  have "project_attr ''name'' JNull doc = Inr (JStr (name m))"
    "project_attr ''description'' JNull doc = Inr (str_or_none (resolve_description m ast))"
    "project_attr ''hasPart'' JNull doc = Inr (JArr (map JStr (has_part (build_parts m ast))))"
    unfolding doc_def project_attr_build by (simp_all add: root_node_def get_def)
  moreover have "graph_nodes doc =
      Inr (JArr (root_node m ast (has_part (build_parts m ast)) # auxiliary_nodes m ast))"
    unfolding doc_def by (simp add: graph_nodes_build appended_build_parts)
  ultimately show ?thesis
    by (simp add: loaded bind_err_def main_def)
qed




section \<open>The fields of a built graph\<close>

lemma strings_of_strings: "strings_of (map JStr xs) = Inr xs"
  by (induction xs) (simp_all add: bind_err_def)

lemma join_json_strings: "join_json sep (map JStr xs) = Inr (JStr (join sep xs))"
  by (simp add: join_json_def strings_of_strings bind_err_def)

lemma join_json_empty: "join_json sep [] = Inr (JStr [])"
  by (simp add: join_json_def bind_err_def)

lemma names_of_list_items: "names_of (list_items xs) = Inr (map JStr xs)"
proof -
  have "names_of (map (\<lambda>(i, f). JObj [(''@type'', JStr ''ListItem''),
      (''position'', JInt (int i + 1)), (''name'', JStr f)]) ps) = Inr (map JStr (map snd ps))"
    for ps :: "(nat \<times> string) list"
    by (induction ps) (auto simp: is_dict_def get_def bind_err_def)
  from this [of "enumerate 0 xs"] show ?thesis
    by (simp only: list_items_def map_snd_enumerate)
qed

lemma node_by_id_build:
  "node_by_id (build_jsonld m ast now) node_id =
     node_by_id_from node_id
       (root_node m ast (has_part (build_parts m ast)) # auxiliary_nodes m ast)"
  by (simp add: node_by_id_def graph_nodes_build appended_build_parts bind_err_def iterate_def)

lemma install_commands_build:
  "install_commands (build_jsonld m ast now) =
     Inr (JStr (join [CHR 0x0A] (find_install_cmds ast)))"
  by (simp add: install_commands_def install_node_def project_node_build bind_err_def
      root_node_def get_def iterate_def has_part_build_parts_cases node_by_id_build
      auxiliary_nodes_def howto_node_def itemlist_node_def py_or_def truthy_def
      join_json_strings join_json_empty)

lemma itemlist_keywords:
  "contains (lower ''feature'') (lower ''Key Features'')"
  "\<not> contains (lower ''feature'') (lower ''Supported Platforms'')"
  "contains (lower ''platform'') (lower ''Supported Platforms'')"
  "\<not> contains (lower ''platform'') (lower ''Key Features'')"
  by code_simp+

lemma itemlist_features_build:
  "itemlist_names ''feature'' (build_jsonld m ast now) =
     Inr (JStr (join [CHR 0x0A] (list_after_heading ast [''feature'', ''key feature''])))"
  by (simp add: itemlist_names_def itemlist_by_name_def graph_nodes_build appended_build_parts
      bind_err_def iterate_def root_node_def get_def auxiliary_nodes_def howto_node_def
      itemlist_node_def py_or_def truthy_def lower_json_def itemlist_keywords
      names_of_list_items join_json_strings join_json_empty)

lemma itemlist_platforms_build:
  "itemlist_names ''platform'' (build_jsonld m ast now) =
     Inr (JStr (join [CHR 0x0A]
       (list_after_heading ast [''supported platform'', ''compatibility''])))"
  by (simp add: itemlist_names_def itemlist_by_name_def graph_nodes_build appended_build_parts
      bind_err_def iterate_def root_node_def get_def auxiliary_nodes_def howto_node_def
      itemlist_node_def py_or_def truthy_def lower_json_def itemlist_keywords
      names_of_list_items join_json_strings join_json_empty)

lemma examples_code_build: "examples_code (build_jsonld m ast now) = Inr (JStr [])"
  by (simp add: examples_code_def example_nodes_def project_node_build bind_err_def
      root_node_def get_def iterate_def has_part_build_parts_cases node_by_id_build
      auxiliary_nodes_def howto_node_def itemlist_node_def join_json_empty)

lemma project_license_build:
  "project_license (build_jsonld m ast now) =
     Inr (JStr (case license m of
                  Some l \<Rightarrow> ''https://spdx.org/licenses/'' @ spdx_id l @ ''.html''
                | None \<Rightarrow> []))"
  by (simp add: project_license_def project_attr_build bind_err_def root_node_def get_def
      license_text_def split: option.splits)

lemma project_topics_build:
  "project_topics (build_jsonld m ast now) = Inr (JStr (join '', '' (topics m)))"
  by (simp add: project_topics_def project_attr_build bind_err_def root_node_def get_def
      py_or_def truthy_def iterate_def join_json_strings join_json_empty)

lemma chunks_from_build:
  "chunks_from FIELDS (build_jsonld m ast now) =
     Inr (filter (\<lambda>(label, v). truthy v)
       [(''project:name'', JStr (name m)),
        (''project:description'', str_or_none (resolve_description m ast)),
        (''install:commands'', JStr (join [CHR 0x0A] (find_install_cmds ast))),
        (''features:list'',
           JStr (join [CHR 0x0A] (list_after_heading ast [''feature'', ''key feature'']))),
        (''platforms:list'',
           JStr (join [CHR 0x0A]
             (list_after_heading ast [''supported platform'', ''compatibility'']))),
        (''examples:code'', JStr []),
        (''project:license'',
           JStr (case license m of
                   Some l \<Rightarrow> ''https://spdx.org/licenses/'' @ spdx_id l @ ''.html''
                 | None \<Rightarrow> [])),
        (''project:topics'', JStr (join '', '' (topics m)))])"
proof -
  have "project_attr ''name'' JNull (build_jsonld m ast now) = Inr (JStr (name m))"
    "project_attr ''description'' JNull (build_jsonld m ast now) =
       Inr (str_or_none (resolve_description m ast))"
    unfolding project_attr_build by (simp_all add: root_node_def get_def)
  then show ?thesis
    by (simp add: FIELDS_def bind_err_def install_commands_build itemlist_features_build
        itemlist_platforms_build examples_code_build project_license_build
        project_topics_build)
qed

lemma built_fields_are_texts:
  "\<exists>chunks. chunks_from FIELDS (build_jsonld m ast now) = Inr chunks \<and>
     list_all (\<lambda>(label, v). is_text v) chunks"
proof -
  have filtered: "list_all (\<lambda>(label, v). is_text v) (filter (\<lambda>(label, v). truthy v) cs)"
    if "list_all (\<lambda>(label, v). is_text v \<or> \<not> truthy v) cs" for cs :: "(string \<times> json) list"
    using that by (induction cs) auto
  have texts: "is_text (JStr s)" for s
    by (simp add: is_text_def)
  have optional: "is_text (str_or_none d) \<or> \<not> truthy (str_or_none d)" for d
    by (cases d) (simp_all add: str_or_none_def is_text_def truthy_def)
  show ?thesis
    unfolding chunks_from_build
  proof (intro exI conjI)
    show "list_all (\<lambda>(label, v). is_text v)
        (filter (\<lambda>(label, v). truthy v)
          [(''project:name'', JStr (name m)),
           (''project:description'', str_or_none (resolve_description m ast)),
           (''install:commands'', JStr (join [CHR 0x0A] (find_install_cmds ast))),
           (''features:list'',
              JStr (join [CHR 0x0A] (list_after_heading ast [''feature'', ''key feature'']))),
           (''platforms:list'',
              JStr (join [CHR 0x0A]
                (list_after_heading ast [''supported platform'', ''compatibility'']))),
           (''examples:code'', JStr []),
           (''project:license'',
              JStr (case license m of
                      Some l \<Rightarrow> ''https://spdx.org/licenses/'' @ spdx_id l @ ''.html''
                    | None \<Rightarrow> [])),
           (''project:topics'', JStr (join '', '' (topics m)))])"
      by (rule filtered) (simp add: texts optional)
  qed (rule refl)
qed

section \<open>The query always answers\<close>

lemma scores_at_least_one:
  assumes "list_all (\<lambda>(label, v). is_text v) chunks"
  shows "list_all (\<lambda>(label, v). \<exists>base. score_chunk question v = Inr base \<and>
           1 \<le> chunk_total (guess_intents question) label base) chunks"
  using assms
proof (induction chunks)
  case Nil
  then show ?case by simp
next
  case (Cons c chunks)
  obtain label v where c: "c = (label, v)" by (cases c)
  with Cons.prems obtain s where v: "v = JStr s"
    by (cases v) (auto simp: is_text_def)
  have "1 \<le> chunk_total (guess_intents question) label (term_overlap question s)"
    by (rule chunk_total_pos) (rule term_overlap_nonneg)
  with Cons c v show ?case by (simp add: score_chunk_text)
qed

text \<open>
  C10, as amended. When every getter of the registry returns, at least one field is not
  empty and the fields that are not empty are texts, every such field has a combined score of
  at least 1, and the query selects one of them and prints an answer. For every document and
  question, the branch that prints \<open>No relevant information found.\<close> is never taken. On
  every graph that the builder emits, every getter returns and the fields that are not empty
  are texts.
\<close>

theorem answer_doc_selects:
  assumes "chunks_from FIELDS doc = Inr chunks"
    and "chunks \<noteq> []"
    and "list_all (\<lambda>(label, v). is_text v) chunks"
  shows "list_all (\<lambda>(label, v). \<exists>base. score_chunk question v = Inr base \<and>
           1 \<le> chunk_total (guess_intents question) label base) chunks \<and>
    (\<exists>label body. label \<in> fst ` set chunks \<and>
       answer_doc question doc = Inr (Answer label body)) \<and>
    (\<forall>q d. answer_doc q d \<noteq> Inr NoRelevant) \<and>
    (\<forall>m ast now. \<exists>built. chunks_from FIELDS (build_jsonld m ast now) = Inr built \<and>
       list_all (\<lambda>(label, v). is_text v) built)"
proof -
  from pick_best_returns [OF assms(3)] obtain b' where
    picked: "pick_best question (guess_intents question) chunks
               \<lparr>best_label = None, best_content = None, best_score = - 1\<rparr> = Inr b'"
    by blast
  from pick_best_chosen [OF picked assms(2)] obtain l v where
    b': "best_label b' = Some l" "best_content b' = Some v" "(l, v) \<in> set chunks"
    by blast
  from b'(3) have label: "l \<in> fst ` set chunks" by force
  with chunks_from_labels [OF assms(1)] have "l \<in> fst ` set FIELDS" by blast
  then have nonempty: "l \<noteq> []" by (rule FIELDS_labels)
  from assms(3) b'(3) obtain s where v: "v = JStr s"
    by (cases v) (auto simp: list_all_iff is_text_def)
  have "answer_doc question doc =
      Inr (Answer l (strip (if l \<in> set list_like then strip (split_blank_first s) else s)))"
    using assms(1,2) picked b'(1,2) nonempty v
    by (simp add: answer_doc_def bind_err_def Let_def first_block_def format_answer_def)
  with label have "\<exists>label body. label \<in> fst ` set chunks \<and>
       answer_doc question doc = Inr (Answer label body)"
    by blast
  with scores_at_least_one [OF assms(3)] no_relevant_unreachable built_fields_are_texts
  show ?thesis
    by blast
qed

theorem answer_doc_selects_witness:
  "chunks_from FIELDS
     (JObj [(''@graph'', JArr [JObj [(''@type'', JStr ''SoftwareApplication''),
                                      (''name'', JStr ''Foo'')]])]) =
     Inr [(''project:name'', JStr ''Foo'')] \<and>
   (\<exists>label body. label \<in> fst ` set [(''project:name'', JStr ''Foo'')] \<and>
      answer_doc ''Which licence?''
        (JObj [(''@graph'', JArr [JObj [(''@type'', JStr ''SoftwareApplication''),
                                         (''name'', JStr ''Foo'')]])]) =
      Inr (Answer label body))"
proof -
  have chunks: "chunks_from FIELDS
     (JObj [(''@graph'', JArr [JObj [(''@type'', JStr ''SoftwareApplication''),
                                      (''name'', JStr ''Foo'')]])]) =
     Inr [(''project:name'', JStr ''Foo'')]"
    by code_simp
  have nonempty: "[(''project:name'', JStr ''Foo'')] \<noteq> []"
    by simp
  have texts: "list_all (\<lambda>(label, v). is_text v) [(''project:name'', JStr ''Foo'')]"
    by (simp add: is_text_def)
  from answer_doc_selects [OF chunks nonempty texts, of "''Which licence?''"] chunks
  show ?thesis by blast
qed

text \<open>
  C10 as the claim states it fails: in a graph whose Project node has the number 5 as its name
  and a description, a field gives a text that is not empty, and the query raises
  \<open>AttributeError\<close> when it scores the name; it prints no answer.
\<close>

theorem answer_doc_raises_on_number:
  "chunks_from FIELDS
     (JObj [(''@graph'', JArr [JObj [(''@type'', JStr ''SoftwareApplication''),
        (''name'', JInt 5), (''description'', JStr ''A tiny tool.'')]])]) =
     Inr [(''project:name'', JInt 5), (''project:description'', JStr ''A tiny tool.'')] \<and>
   answer_doc ''What is this about?''
     (JObj [(''@graph'', JArr [JObj [(''@type'', JStr ''SoftwareApplication''),
        (''name'', JInt 5), (''description'', JStr ''A tiny tool.'')]])]) =
     Inl AttributeError"
  by code_simp

end
